theory Spec2Isabelle
  imports Complex_Main "HOL-Library.Multiset"
begin

section \<open>Strings\<close>

text \<open>
  A JavaScript string is a sequence of UTF-16 code units. Every character the sources
  use (Basic Latin, Cyrillic, punctuation) is one code unit, so a string is modelled as
  the list of its code units, written as numbers. \<open>ascii\<close> turns a Basic Latin literal
  into that form.
\<close>

type_synonym jsstring = "nat list"

definition ascii :: "string \<Rightarrow> jsstring" where
  "ascii s = map of_char s"

text \<open>
  \<open>String.prototype.toLowerCase\<close>, restricted to the two alphabets of the sources: Basic
  Latin \<open>A-Z\<close> (65..90) and Cyrillic U+0400..U+042F. Every other code unit is left as it is.
\<close>

definition lowerUnit :: "nat \<Rightarrow> nat" where
  "lowerUnit c =
     (if 65 \<le> c \<and> c \<le> 90 then c + 32
      else if 1040 \<le> c \<and> c \<le> 1071 then c + 32
      else if 1024 \<le> c \<and> c \<le> 1039 then c + 80
      else c)"

definition toLowerCase :: "jsstring \<Rightarrow> jsstring" where
  "toLowerCase s = map lowerUnit s"

text \<open>\<open>Array.prototype.join\<close> on an array of strings.\<close>

fun join :: "jsstring \<Rightarrow> jsstring list \<Rightarrow> jsstring" where
  "join sep [] = []"
| "join sep [x] = x"
| "join sep (x # y # ys) = x @ sep @ join sep (y # ys)"

text \<open>
  The white space and line terminators of ECMAScript: what \<open>String.prototype.trim\<close>
  strips from both ends and what \<open>\\s\<close> matches in a regular expression.
\<close>

definition isWhiteSpace :: "nat \<Rightarrow> bool" where
  "isWhiteSpace c =
     (c \<in> {9, 10, 11, 12, 13, 32, 160, 5760, 8232, 8233, 8239, 8287, 12288, 65279}
      \<or> (8192 \<le> c \<and> c \<le> 8202))"

definition trimStart :: "jsstring \<Rightarrow> jsstring" where
  "trimStart s = dropWhile isWhiteSpace s"

definition trimEnd :: "jsstring \<Rightarrow> jsstring" where
  "trimEnd s = rev (dropWhile isWhiteSpace (rev s))"

definition trim :: "jsstring \<Rightarrow> jsstring" where
  "trim s = trimEnd (trimStart s)"

text \<open>
  \<open>s.includes(part)\<close>: the part occurs in the string, at some position from 0 to the
  length of the string.
\<close>

definition occursIn :: "jsstring \<Rightarrow> jsstring \<Rightarrow> bool" where
  "occursIn part s =
     list_ex (\<lambda>i. take (length part) (drop i s) = part) [0..<Suc (length s)]"

section \<open>Errors\<close>

text \<open>
  The exceptions of the sources as values: a plain \<open>Error\<close> with its message, a
  \<open>SyntaxError\<close> (of \<open>JSON.parse\<close>) with its message, and a file-system error with
  its \<open>code\<close> and its message. All three are instances of \<open>Error\<close> in JavaScript.
\<close>

datatype jserror =
    Error jsstring
  | SyntaxError jsstring
  | ErrnoException jsstring jsstring

fun message :: "jserror \<Rightarrow> jsstring" where
  "message (Error m) = m"
| "message (SyntaxError m) = m"
| "message (ErrnoException c m) = m"

section \<open>personalization.ts: the user profile\<close>

record preferences =
  answerStyle :: jsstring
  includeRecommendations :: bool
  technicalLevel :: jsstring
  useEmoji :: bool

record responsibilities =
  services :: "jsstring list"
  criticalErrors :: "jsstring list"

record workingHours =
  wh_start :: jsstring
  wh_end :: jsstring

record userProfile =
  name :: jsstring
  role :: jsstring
  experience :: jsstring
  timezone :: jsstring
  preferences :: preferences
  responsibilities :: responsibilities
  workingHours :: workingHours

text \<open>
  \<open>PersonalizationManager\<close> has one field, \<open>profile: UserProfile | null\<close>. TypeScript
  erases the type at run time: \<open>loadProfile\<close> stores the value \<open>JSON.parse\<close> returned,
  the accessors read the field at its declared type. The record is therefore polymorphic
  in the representation of the profile.
\<close>

record 'p personalizationManager =
  profile :: "'p option"

definition newManager :: "'p personalizationManager" where
  "newManager = \<lparr> profile = None \<rparr>"

definition notLoaded :: jserror where
  "notLoaded = Error (ascii ''Profile not loaded. Call loadProfile() first.'')"

definition getProfile :: "'p personalizationManager \<Rightarrow> 'p option" where
  "getProfile m = profile m"

text \<open>
  \<open>isRelevantToUser\<close> (personalization.ts, lines 154-172): throws when no profile is
  loaded; otherwise \<open>some\<close> over the two responsibility lists, comparing lower-cased
  strings with \<open>===\<close>.
\<close>

definition isRelevantToUser ::
  "userProfile personalizationManager \<Rightarrow> jsstring \<Rightarrow> jsstring \<Rightarrow> jserror + bool" where
  "isRelevantToUser m serviceName errorType =
     (case profile m of
        None \<Rightarrow> Inl notLoaded
      | Some p \<Rightarrow>
          (let isResponsibleService =
                 list_ex (\<lambda>service. toLowerCase service = toLowerCase serviceName)
                   (services (responsibilities p));
               isCriticalError =
                 list_ex (\<lambda>error. toLowerCase error = toLowerCase errorType)
                   (criticalErrors (responsibilities p))
           in Inr (isResponsibleService \<or> isCriticalError)))"

text \<open>\<open>getUserContext\<close> (personalization.ts, lines 127-145).\<close>

definition notSpecified :: jsstring where
  \<comment> \<open>the Russian for "not specified"\<close>
  "notSpecified = [1085, 1077, 32, 1091, 1082, 1072, 1079, 1072, 1085, 1086]"

definition getUserContext :: "userProfile personalizationManager \<Rightarrow> jserror + jsstring" where
  "getUserContext m =
     (case profile m of
        None \<Rightarrow> Inl notLoaded
      | Some p \<Rightarrow>
          (let servicesStr =
                 (if length (services (responsibilities p)) > 0
                  then join (ascii '', '') (services (responsibilities p)) else notSpecified);
               errorsStr =
                 (if length (criticalErrors (responsibilities p)) > 0
                  then join (ascii '', '') (criticalErrors (responsibilities p))
                  else notSpecified)
           in Inr ([1055, 1086, 1083, 1100, 1079, 1086, 1074, 1072, 1090, 1077, 1083, 1100, 58, 32]
                   @ name p @ ascii '', '' @ role p @ ascii '' ('' @ experience p @ ascii '')''
                   @ [10, 1054, 1090, 1074, 1077, 1090, 1089, 1090, 1074, 1077, 1085, 1085, 1086,
                      1089, 1090, 1100, 58, 32]
                   @ servicesStr
                   @ [10, 1050, 1088, 1080, 1090, 1080, 1095, 1085, 1099, 1077, 32, 1086, 1096,
                      1080, 1073, 1082, 1080, 58, 32]
                   @ errorsStr)))"

section \<open>personalization.ts: loading and validating a profile\<close>

text \<open>
  The value \<open>JSON.parse\<close> returns. An object is the list of its own properties, each key
  once; a number is a real (JSON has neither NaN nor the infinities).
\<close>

datatype json =
    JNull
  | JBool bool
  | JNum real
  | JStr jsstring
  | JArr "json list"
  | JObj "(jsstring \<times> json) list"

text \<open>
  \<open>!v || typeof v !== "object"\<close>: of the values of JSON, exactly the objects and the
  arrays are truthy with \<open>typeof\<close> equal to \<open>"object"\<close> (\<open>null\<close> is falsy).
\<close>

fun isObjectLike :: "json \<Rightarrow> bool" where
  "isObjectLike (JObj kvs) = True"
| "isObjectLike (JArr xs) = True"
| "isObjectLike v = False"

text \<open>
  \<open>field in v\<close> and \<open>v.field\<close> for the field names \<open>validateProfile\<close> uses. None of them
  is a property of \<open>Object.prototype\<close> or of an array, so on an array the test is false and
  the read is \<open>undefined\<close> (\<open>None\<close>).
\<close>

fun hasField :: "jsstring \<Rightarrow> json \<Rightarrow> bool" where
  "hasField field (JObj kvs) = (field \<in> set (map fst kvs))"
| "hasField field v = False"

fun getField :: "json \<Rightarrow> jsstring \<Rightarrow> json option" where
  "getField (JObj kvs) field = map_of kvs field"
| "getField v field = None"

fun isArray :: "json option \<Rightarrow> bool" where
  "isArray (Some (JArr xs)) = True"
| "isArray v = False"

definition requiredFields :: "jsstring list" where
  "requiredFields =
     [ascii ''name'', ascii ''role'', ascii ''experience'', ascii ''timezone'',
      ascii ''preferences'', ascii ''responsibilities'', ascii ''workingHours'']"

text \<open>
  \<open>validateProfile\<close> (personalization.ts, lines 65-92). The checks run in the source's
  order and the first that fails throws; \<open>Inr ()\<close> is the normal return.
\<close>

definition validateProfile :: "json \<Rightarrow> jserror + unit" where
  "validateProfile p =
     (if \<not> isObjectLike p then Inl (Error (ascii ''Profile must be an object''))
      else case find (\<lambda>field. \<not> hasField field p) requiredFields of
        Some field \<Rightarrow> Inl (Error (ascii ''Missing required field: '' @ field))
      | None \<Rightarrow>
         (if \<not> (case getField p (ascii ''preferences'') of
                   Some v \<Rightarrow> isObjectLike v | None \<Rightarrow> False)
          then Inl (Error (ascii ''Invalid preferences structure''))
          else case getField p (ascii ''responsibilities'') of
            None \<Rightarrow> Inl (Error (ascii ''Invalid responsibilities structure''))
          | Some r \<Rightarrow>
             (if \<not> isObjectLike r
              then Inl (Error (ascii ''Invalid responsibilities structure''))
              else if \<not> isArray (getField r (ascii ''services''))
              then Inl (Error (ascii ''responsibilities.services must be an array''))
              else if \<not> isArray (getField r (ascii ''criticalErrors''))
              then Inl (Error (ascii ''responsibilities.criticalErrors must be an array''))
              else Inr ())))"

text \<open>
  The \<open>catch\<close> block of \<open>loadProfile\<close> (lines 46-57): every error caught is an instance of
  \<open>Error\<close> and is thrown again as a new \<open>Error\<close>, the message chosen by its kind.
\<close>

fun rethrow :: "jsstring \<Rightarrow> jserror \<Rightarrow> jserror" where
  "rethrow profilePath (ErrnoException code m) =
     (if code = ascii ''ENOENT'' then Error (ascii ''Profile file not found: '' @ profilePath)
      else Error (ascii ''Failed to load profile: '' @ m))"
| "rethrow profilePath (SyntaxError m) = Error (ascii ''Invalid JSON in profile file: '' @ m)"
| "rethrow profilePath (Error m) = Error (ascii ''Failed to load profile: '' @ m)"

text \<open>
  \<open>loadProfile\<close> (lines 33-58). The collaborators are parameters: \<open>resolve\<close> of the path
  module, \<open>readFile\<close> (the file's text or the error it throws) and \<open>JSON.parse\<close> (the
  value, or the message of its \<open>SyntaxError\<close>). The result is the outcome of the call and
  the manager after it; the assignment to \<open>this.profile\<close> is the last statement of the
  \<open>try\<close> block.
\<close>

definition loadProfile ::
  "(jsstring \<Rightarrow> jsstring) \<Rightarrow> (jsstring \<Rightarrow> jserror + jsstring) \<Rightarrow> (jsstring \<Rightarrow> jsstring + json) \<Rightarrow>
   json personalizationManager \<Rightarrow> jsstring \<Rightarrow> (jserror + unit) \<times> json personalizationManager" where
  "loadProfile resolve readFile jsonParse m profilePath =
     (case readFile (resolve profilePath) of
        Inl e \<Rightarrow> (Inl (rethrow profilePath e), m)
      | Inr fileContent \<Rightarrow>
         (case jsonParse fileContent of
            Inl msg \<Rightarrow> (Inl (rethrow profilePath (SyntaxError msg)), m)
          | Inr parsedProfile \<Rightarrow>
             (case validateProfile parsedProfile of
                Inl e \<Rightarrow> (Inl (rethrow profilePath e), m)
              | Inr u \<Rightarrow> (Inr (), m\<lparr> profile := Some parsedProfile \<rparr>))))"

text \<open>
  The managers a program can hold: a new one, and the one left by any call of
  \<open>loadProfile\<close> (whatever the files contain at that time) on a manager it can hold.
\<close>

inductive reachable ::
  "(jsstring \<Rightarrow> jsstring) \<Rightarrow> (jsstring \<Rightarrow> jsstring + json) \<Rightarrow> json personalizationManager \<Rightarrow> bool"
  for resolve jsonParse where
  fresh: "reachable resolve jsonParse newManager"
| load: "reachable resolve jsonParse m \<Longrightarrow>
         reachable resolve jsonParse (snd (loadProfile resolve readFile jsonParse m profilePath))"

section \<open>rag.ts: data\<close>

record errorLog =
  timestamp :: jsstring
  level :: jsstring
  service :: jsstring
  error_type :: jsstring
  message_text :: jsstring
  user_id :: "jsstring option"
  request_id :: jsstring
  stack_trace :: jsstring
  metadata :: json

text \<open>
  An embedding is an array of numbers. Numbers are modelled as reals where they are
  finite: rounding is not modelled, the values that are not numbers are (\<open>jsnum\<close> below).
\<close>

record embeddedLog =
  logRec :: errorLog
  embedding :: "real list"
  logText :: jsstring

record embeddingCache =
  fileHash :: jsstring
  cachedLogs :: "embeddedLog list"
  createdAt :: jsstring

record ragSystem =
  embeddedLogs :: "embeddedLog list"
  allLogs :: "errorLog list"
  personalization :: "userProfile personalizationManager option"

definition newRAGSystem :: ragSystem where
  "newRAGSystem = \<lparr> embeddedLogs = [], allLogs = [], personalization = None \<rparr>"

definition setPersonalization :: "ragSystem \<Rightarrow> userProfile personalizationManager \<Rightarrow> ragSystem" where
  "setPersonalization st p = st\<lparr> personalization := Some p \<rparr>"

section \<open>rag.ts: similarity ranking\<close>

text \<open>
  The result of an arithmetic operation of JavaScript: a finite number, \<open>NaN\<close> or an
  infinity.
\<close>

datatype jsnum = Num real | NaN | PosInf | NegInf

text \<open>
  \<open>a.reduce((sum, val, i) => sum + val * b[i], 0)\<close>: where \<open>b\<close> is shorter than \<open>a\<close>,
  \<open>b[i]\<close> is \<open>undefined\<close>, the product is \<open>NaN\<close> and so is the sum.
\<close>

definition dotProduct :: "real list \<Rightarrow> real list \<Rightarrow> jsnum" where
  "dotProduct a b =
     (if length b < length a then NaN
      else Num (foldl (\<lambda>sum (val, bi). sum + val * bi) 0 (zip a b)))"

definition magnitude :: "real list \<Rightarrow> real" where
  "magnitude a = sqrt (foldl (\<lambda>sum val. sum + val * val) 0 a)"

text \<open>Division of a number or \<open>NaN\<close> by a finite number that is not negative.\<close>

fun jsDivide :: "jsnum \<Rightarrow> real \<Rightarrow> jsnum" where
  "jsDivide (Num x) d =
     (if d = 0 then (if x = 0 then NaN else if 0 < x then PosInf else NegInf)
      else Num (x / d))"
| "jsDivide v d = v"

text \<open>\<open>cosineSimilarity\<close> (rag.ts, lines 152-157).\<close>

definition cosineSimilarity :: "real list \<Rightarrow> real list \<Rightarrow> jsnum" where
  "cosineSimilarity a b =
     (let dotProduct = dotProduct a b;
          magnitudeA = magnitude a;
          magnitudeB = magnitude b
      in jsDivide dotProduct (magnitudeA * magnitudeB))"

text \<open>Subtraction, as the comparator of the sort uses it.\<close>

fun jsMinus :: "jsnum \<Rightarrow> jsnum \<Rightarrow> jsnum" where
  "jsMinus (Num x) (Num y) = Num (x - y)"
| "jsMinus NaN v = NaN"
| "jsMinus v NaN = NaN"
| "jsMinus PosInf PosInf = NaN"
| "jsMinus NegInf NegInf = NaN"
| "jsMinus PosInf v = PosInf"
| "jsMinus NegInf v = NegInf"
| "jsMinus (Num x) PosInf = NegInf"
| "jsMinus (Num x) NegInf = PosInf"

fun positive :: "jsnum \<Rightarrow> bool" where
  "positive (Num x) = (0 < x)"
| "positive PosInf = True"
| "positive v = False"

text \<open>The number a score holds (and 0 for a score that is not a number).\<close>

fun numberOf :: "jsnum \<Rightarrow> real" where
  "numberOf (Num r) = r"
| "numberOf v = 0"

text \<open>
  \<open>Array.prototype.sort\<close> with a comparator. ECMAScript requires the sort to be stable,
  and fixes the result when the comparator is consistent: \<open>b\<close> goes before \<open>a\<close> only where
  \<open>comparefn(a, b) > 0\<close>; a result of \<open>NaN\<close> counts as \<open>0\<close>. \<open>sortBy\<close> is that result, as
  the stable insertion sort computes it: each element, from the last to the first, is put
  in front of the sorted rest and moves right past the elements the comparator puts before
  it. Where the comparator is not consistent (a score that is \<open>NaN\<close> compares equal to two
  scores that differ) the standard leaves the order to the engine, and \<open>sortBy\<close> is not
  that order; \<open>arraySort\<close> below is what the sources call.
\<close>

fun insertBy :: "('a \<Rightarrow> 'a \<Rightarrow> jsnum) \<Rightarrow> 'a \<Rightarrow> 'a list \<Rightarrow> 'a list" where
  "insertBy comparefn x [] = [x]"
| "insertBy comparefn x (y # ys) =
     (if positive (comparefn x y) then y # insertBy comparefn x ys else x # y # ys)"

definition sortBy :: "('a \<Rightarrow> 'a \<Rightarrow> jsnum) \<Rightarrow> 'a list \<Rightarrow> 'a list" where
  "sortBy comparefn xs = foldr (insertBy comparefn) xs []"

text \<open>
  The sort of the engine. The sources run on Node.js, whose engine V8 sorts an array with
  TimSort (\<open>third_party/v8/builtins/array-sort.tq\<close>). It reads the comparator's result by
  its sign, \<open>NaN\<close> as \<open>0\<close>; \<open>negative\<close> is the test \<open>order < 0\<close>.
\<close>

fun negative :: "jsnum \<Rightarrow> bool" where
  "negative (Num x) = (x < 0)"
| "negative NegInf = True"
| "negative v = False"

text \<open>
  \<open>CountAndMakeRun\<close>: the run at the start of the array is the longest sequence
  \<open>a[0] <= a[1] <= ...\<close>, or the longest strictly descending one, which is then reversed.
  The first comparison, of \<open>a[1]\<close> with \<open>a[0]\<close>, decides which; \<open>runLength\<close> counts the
  elements after the first two that continue the run, each compared with the one before it.
\<close>

fun runLength :: "('a \<Rightarrow> 'a \<Rightarrow> jsnum) \<Rightarrow> bool \<Rightarrow> 'a \<Rightarrow> 'a list \<Rightarrow> nat" where
  "runLength comparefn isDescending previousElement [] = 0"
| "runLength comparefn isDescending previousElement (currentElement # rest) =
     (let order = comparefn currentElement previousElement
      in if (if isDescending then \<not> negative order else negative order) then 0
         else Suc (runLength comparefn isDescending currentElement rest))"

definition countAndMakeRun :: "('a \<Rightarrow> 'a \<Rightarrow> jsnum) \<Rightarrow> 'a list \<Rightarrow> nat \<times> 'a list" where
  "countAndMakeRun comparefn workArray =
     (case workArray of
        elementHigh # elementLow # rest \<Rightarrow>
          (let order = comparefn elementLow elementHigh;
               isDescending = negative order;
               runLength = 2 + runLength comparefn isDescending elementLow rest
           in (runLength,
               if isDescending then rev (take runLength workArray) @ drop runLength workArray
               else workArray))
      | _ \<Rightarrow> (length workArray, workArray))"

text \<open>
  \<open>BinaryInsertionSort\<close>: the elements from \<open>start\<close> up to \<open>high\<close> are inserted, one after
  the other, into the sorted part in front of them. \<open>findInsertionPoint\<close> is the inner
  loop, a binary search between \<open>left\<close> and \<open>right\<close>: the pivot goes to the left of \<open>mid\<close>
  where it compares below the element there, and to its right otherwise.
\<close>

function findInsertionPoint ::
  "('a \<Rightarrow> 'a \<Rightarrow> jsnum) \<Rightarrow> 'a \<Rightarrow> 'a list \<Rightarrow> nat \<Rightarrow> nat \<Rightarrow> nat" where
  "findInsertionPoint comparefn pivot workArray left right =
     (if left < right
      then (let mid = left + (right - left) div 2;
                order = comparefn pivot (workArray ! mid)
            in if negative order then findInsertionPoint comparefn pivot workArray left mid
               else findInsertionPoint comparefn pivot workArray (mid + 1) right)
      else left)"
  by pat_completeness auto

termination
  by (relation "measure (\<lambda>(comparefn, pivot, workArray, left, right). right - left)") auto

declare findInsertionPoint.simps [simp del]

function binaryInsertionSort ::
  "('a \<Rightarrow> 'a \<Rightarrow> jsnum) \<Rightarrow> 'a list \<Rightarrow> nat \<Rightarrow> nat \<Rightarrow> 'a list" where
  "binaryInsertionSort comparefn workArray start high =
     (if start < high
      then (let pivot = workArray ! start;
                left = findInsertionPoint comparefn pivot workArray 0 start
            in binaryInsertionSort comparefn
                 (take left workArray @ [pivot] @ drop left (take start workArray)
                  @ drop (start + 1) workArray)
                 (start + 1) high)
      else workArray)"
  by pat_completeness auto

termination
  by (relation "measure (\<lambda>(comparefn, workArray, start, high). high - start)") auto

declare binaryInsertionSort.simps [simp del]

text \<open>
  \<open>ArrayTimSortImpl\<close> on an array of fewer than 64 elements: the minimal run length is
  then the length of the array, so the first run is extended to the whole array by binary
  insertion and nothing is merged. A longer array is cut into several runs, which are
  merged; the merge is not modelled (\<open>None\<close>).
\<close>

definition engineSort :: "('a \<Rightarrow> 'a \<Rightarrow> jsnum) \<Rightarrow> 'a list \<Rightarrow> 'a list option" where
  "engineSort comparefn xs =
     (if length xs < 2 then Some xs
      else if 64 \<le> length xs then None
      else (case countAndMakeRun comparefn xs of
              (currentRunLength, workArray) \<Rightarrow>
                Some (binaryInsertionSort comparefn workArray currentRunLength (length xs))))"

text \<open>
  \<open>Array.prototype.sort\<close> as the sources call it: the engine's sort where it is modelled,
  and for a longer array the result the standard prescribes. Wherever the comparator is
  consistent the two are the same, the stable sort (\<open>arraySort_sort_key\<close>): so the model
  is the code's for every array shorter than 64, and for a longer one unless a comparison
  in it is \<open>NaN\<close>.
\<close>

definition arraySort :: "('a \<Rightarrow> 'a \<Rightarrow> jsnum) \<Rightarrow> 'a list \<Rightarrow> 'a list" where
  "arraySort comparefn xs =
     (case engineSort comparefn xs of
        Some work \<Rightarrow> work
      | None \<Rightarrow> sortBy comparefn xs)"

text \<open>
  \<open>xs.slice(0, end)\<close> for an integer \<open>end\<close>: a negative \<open>end\<close> counts from the end of the
  array.
\<close>

definition slice0 :: "'a list \<Rightarrow> int \<Rightarrow> 'a list" where
  "slice0 xs stop =
     (if stop < 0 then take (nat (int (length xs) + stop)) xs else take (nat stop) xs)"

record scored =
  scoredLog :: errorLog
  similarity :: jsnum

text \<open>
  The body of \<open>findRelevantLogs\<close> after the embedding of the question has arrived (rag.ts,
  lines 167-179): score every indexed record, sort a new array by descending similarity,
  keep the first \<open>topK\<close>, return their logs.
\<close>

definition similarities :: "real list \<Rightarrow> embeddedLog list \<Rightarrow> scored list" where
  "similarities questionEmbedding index =
     map (\<lambda>embeddedLog.
            \<lparr> scoredLog = logRec embeddedLog,
              similarity = cosineSimilarity questionEmbedding (embedding embeddedLog) \<rparr>)
         index"

definition bySimilarity :: "scored \<Rightarrow> scored \<Rightarrow> jsnum" where
  "bySimilarity a b = jsMinus (similarity b) (similarity a)"

definition rankLogs :: "real list \<Rightarrow> embeddedLog list \<Rightarrow> int \<Rightarrow> errorLog list" where
  "rankLogs questionEmbedding index topK =
     map scoredLog (slice0 (arraySort bySimilarity (similarities questionEmbedding index)) topK)"

section \<open>The collaborators and the world\<close>

text \<open>
  What the sources reach through libraries and services is a parameter of the model:
  \<^item> \<open>jsonParseLogs\<close>: \<open>JSON.parse\<close> on the text of the corpus file, read at its declared
    type \<open>ErrorLog[]\<close>; \<open>Inl\<close> is the message of the \<open>SyntaxError\<close>;
  \<^item> \<open>md5hex\<close>: \<open>crypto.createHash("md5").update(content).digest("hex")\<close>;
  \<^item> \<open>baseName\<close>: \<open>path.basename(filePath, path.extname(filePath))\<close>;
  \<^item> \<open>stringify\<close> and \<open>stringifyPretty\<close>: \<open>JSON.stringify(v)\<close> and
    \<open>JSON.stringify(v, null, 2)\<close>;
  \<^item> \<open>embedFn\<close>: the embedding model behind \<open>OllamaClient.createEmbedding\<close>; given the
    number of requests made before and the prompt, a vector or the error thrown;
  \<^item> \<open>chatFn\<close>: the chat model behind \<open>OllamaClient.chat\<close>; given the number of requests
    made before, the system prompt and the user message, the chunks streamed and, when the
    request or the stream fails, the error thrown after them.
\<close>

record env =
  jsonParseLogs :: "jsstring \<Rightarrow> jsstring + errorLog list"
  md5hex :: "jsstring \<Rightarrow> jsstring"
  baseName :: "jsstring \<Rightarrow> jsstring"
  stringify :: "json \<Rightarrow> jsstring"
  stringifyPretty :: "json \<Rightarrow> jsstring"
  embedFn :: "nat \<Rightarrow> jsstring \<Rightarrow> jserror + real list"
  chatFn :: "nat \<Rightarrow> jsstring \<Rightarrow> jsstring \<Rightarrow> jsstring list \<times> jserror option"

text \<open>
  The world outside the process: the files that can be read (the text, or the error
  \<open>readFile\<close> throws), the cache directory, whether a cache file can be written, the
  clock, and the requests made to the two models so far. A cache file holds the JSON text
  of an \<open>EmbeddingCache\<close> written by \<open>saveCache\<close>; the model keeps the value itself, since
  \<open>JSON.parse\<close> gives back what \<open>JSON.stringify\<close> wrote for strings and finite numbers.
  \<open>None\<close> is a cache file that is absent or cannot be read or parsed.
\<close>

record world =
  files :: "jsstring \<Rightarrow> jserror + jsstring"
  cacheFiles :: "jsstring \<Rightarrow> embeddingCache option"
  cacheWritable :: "jsstring \<Rightarrow> bool"
  now :: jsstring
  embedCalls :: "jsstring list"
  chatCalls :: "(jsstring \<times> jsstring) list"

text \<open>\<open>OllamaClient.createEmbedding\<close> (ollama.ts, lines 13-24): an error is logged and thrown again.\<close>

definition createEmbedding :: "env \<Rightarrow> world \<Rightarrow> jsstring \<Rightarrow> (jserror + real list) \<times> world" where
  "createEmbedding env w prompt =
     (embedFn env (length (embedCalls w)) prompt, w\<lparr> embedCalls := embedCalls w @ [prompt] \<rparr>)"

text \<open>\<open>findRelevantLogs\<close> (rag.ts, lines 160-180); it assigns to no field.\<close>

definition findRelevantLogs ::
  "env \<Rightarrow> ragSystem \<Rightarrow> world \<Rightarrow> jsstring \<Rightarrow> int \<Rightarrow> (jserror + errorLog list) \<times> world" where
  "findRelevantLogs env st w question topK =
     (case createEmbedding env w question of
        (Inl e, w') \<Rightarrow> (Inl e, w')
      | (Inr questionEmbedding, w') \<Rightarrow>
          (Inr (rankLogs questionEmbedding (embeddedLogs st) topK), w'))"

section \<open>rag.ts: the embedding cache and indexing\<close>

text \<open>\<open>getFileHash\<close> (lines 48-51).\<close>

definition getFileHash :: "env \<Rightarrow> world \<Rightarrow> jsstring \<Rightarrow> jserror + jsstring" where
  "getFileHash env w filePath =
     (case files w filePath of
        Inl e \<Rightarrow> Inl e
      | Inr content \<Rightarrow> Inr (md5hex env content))"

text \<open>
  \<open>getCachePath\<close> (lines 54-57): \<open>path.join\<close> of the cache directory \<open>./data/.cache\<close> and
  the file name.
\<close>

definition getCachePath :: "env \<Rightarrow> jsstring \<Rightarrow> jsstring" where
  "getCachePath env filePath =
     ascii ''data/.cache/'' @ baseName env filePath @ ascii ''.embeddings.json''"

text \<open>\<open>loadCache\<close> (lines 60-68): every failure is caught and gives \<open>null\<close>.\<close>

definition loadCache :: "env \<Rightarrow> world \<Rightarrow> jsstring \<Rightarrow> embeddingCache option" where
  "loadCache env w filePath = cacheFiles w (getCachePath env filePath)"

text \<open>
  \<open>saveCache\<close> (lines 71-87): the cache holds the whole of \<open>this.embeddedLogs\<close>; a failure
  to write is caught and only warned about.
\<close>

definition saveCache :: "env \<Rightarrow> ragSystem \<Rightarrow> world \<Rightarrow> jsstring \<Rightarrow> jsstring \<Rightarrow> world" where
  "saveCache env st w filePath hash =
     (let cache = \<lparr> fileHash = hash, cachedLogs = embeddedLogs st, createdAt = now w \<rparr>;
          cachePath = getCachePath env filePath
      in if cacheWritable w cachePath
         then w\<lparr> cacheFiles := (cacheFiles w)(cachePath \<mapsto> cache) \<rparr>
         else w)"

text \<open>\<open>logToText\<close> (lines 141-149).\<close>

definition logToText :: "env \<Rightarrow> errorLog \<Rightarrow> jsstring" where
  "logToText env logEntry =
     trim ([10] @ ascii ''Service: '' @ service logEntry
           @ [10] @ ascii ''Error Type: '' @ error_type logEntry
           @ [10] @ ascii ''Message: '' @ message_text logEntry
           @ [10] @ ascii ''Timestamp: '' @ timestamp logEntry
           @ [10] @ ascii ''Metadata: '' @ stringify env (metadata logEntry)
           @ [10] @ ascii ''    '')"

text \<open>
  The loop of \<open>loadAndIndexLogs\<close> (lines 116-132) over the records still to embed: one
  request at a time, each result pushed onto \<open>this.embeddedLogs\<close>; an error of a request
  leaves the loop and the function.
\<close>

fun indexLoop ::
  "env \<Rightarrow> errorLog list \<Rightarrow> ragSystem \<Rightarrow> world \<Rightarrow> (jserror + unit) \<times> ragSystem \<times> world" where
  "indexLoop env [] st w = (Inr (), st, w)"
| "indexLoop env (logEntry # rest) st w =
     (let text = logToText env logEntry in
      case createEmbedding env w text of
        (Inl e, w') \<Rightarrow> (Inl e, st, w')
      | (Inr vector, w') \<Rightarrow>
          indexLoop env rest
            (st\<lparr> embeddedLogs :=
                   embeddedLogs st @ [\<lparr> logRec = logEntry, embedding = vector, logText = text \<rparr>] \<rparr>)
            w')"

text \<open>
  The test \<open>cache && cache.fileHash === currentHash\<close> (line 104): the cache that is
  loaded and carries the current hash, if there is one.
\<close>

definition validCache :: "embeddingCache option \<Rightarrow> jsstring \<Rightarrow> embeddingCache option" where
  "validCache cache currentHash =
     (case cache of
        None \<Rightarrow> None
      | Some c \<Rightarrow> if fileHash c = currentHash then Some c else None)"

text \<open>
  \<open>loadAndIndexLogs\<close> (lines 90-138). The result is the outcome, the object after the
  call and the world after it: \<open>this.allLogs\<close> is assigned as soon as the file is parsed,
  and a failing request leaves the records pushed before it in \<open>this.embeddedLogs\<close>.
\<close>

definition loadAndIndexLogs ::
  "env \<Rightarrow> ragSystem \<Rightarrow> world \<Rightarrow> jsstring \<Rightarrow> (jserror + unit) \<times> ragSystem \<times> world" where
  "loadAndIndexLogs env st w filePath =
     (case files w filePath of
        Inl e \<Rightarrow> (Inl e, st, w)
      | Inr fileContent \<Rightarrow>
         (case jsonParseLogs env fileContent of
            Inl msg \<Rightarrow> (Inl (SyntaxError msg), st, w)
          | Inr logs \<Rightarrow>
             (let st1 = st\<lparr> allLogs := logs \<rparr> in
              case getFileHash env w filePath of
                Inl e \<Rightarrow> (Inl e, st1, w)
              | Inr currentHash \<Rightarrow>
                 (case validCache (loadCache env w filePath) currentHash of
                    Some cache \<Rightarrow> (Inr (), st1\<lparr> embeddedLogs := cachedLogs cache \<rparr>, w)
                  | None \<Rightarrow>
                     (case indexLoop env (allLogs st1) st1 w of
                        (Inl e, st2, w2) \<Rightarrow> (Inl e, st2, w2)
                      | (Inr u, st2, w2) \<Rightarrow>
                          (Inr (), st2, saveCache env st2 w2 filePath currentHash))))))"

section \<open>Regular expressions\<close>

text \<open>
  The regular expressions of \<open>askQuestion\<close> use literals, the classes \<open>.\<close>, white
  space and \<open>[...]\<close>, \<open>*\<close> and \<open>+\<close> on a class, an optional group, alternation and the
  word-boundary assertion. A matcher state is the code unit before the current position (if any) and the
  rest of the input; \<open>matchRx\<close> returns the states in which a match of the expression that
  starts in the given state can end. \<open>RegExp.prototype.test\<close> asks whether a match starts
  at some position.
\<close>

datatype cclass = AnyChar | Space | OneOf "nat list"

datatype regex =
    Lit jsstring
  | Cls cclass
  | ZeroOrMore cclass
  | OneOrMore cclass
  | Seq regex regex
  | Alt regex regex
  | Opt regex
  | WordBoundary

text \<open>
  With the flag \<open>i\<close> (and without \<open>u\<close>) two code units match when they have the same
  upper-case form; as for \<open>toLowerCase\<close>, the model covers Basic Latin and Cyrillic
  (U+0430..U+045F) and leaves every other code unit as it is.
\<close>

definition upperUnit :: "nat \<Rightarrow> nat" where
  "upperUnit c =
     (if 97 \<le> c \<and> c \<le> 122 then c - 32
      else if 1072 \<le> c \<and> c \<le> 1103 then c - 32
      else if 1104 \<le> c \<and> c \<le> 1119 then c - 80
      else c)"

definition sameUnit :: "bool \<Rightarrow> nat \<Rightarrow> nat \<Rightarrow> bool" where
  "sameUnit ignoreCase a b = (if ignoreCase then upperUnit a = upperUnit b else a = b)"

text \<open>\<open>.\<close> matches every code unit but the line terminators.\<close>

fun inClass :: "bool \<Rightarrow> cclass \<Rightarrow> nat \<Rightarrow> bool" where
  "inClass ignoreCase AnyChar c = (c \<notin> {10, 13, 8232, 8233})"
| "inClass ignoreCase Space c = isWhiteSpace c"
| "inClass ignoreCase (OneOf cs) c = list_ex (sameUnit ignoreCase c) cs"

text \<open>
  The word characters of the word-boundary assertion are \<open>[A-Za-z0-9_]\<close> and no
  others: a Cyrillic letter is not a word character. Before the start and after the end
  of the input there is none.
\<close>

definition isWordChar :: "nat \<Rightarrow> bool" where
  "isWordChar c =
     ((48 \<le> c \<and> c \<le> 57) \<or> (65 \<le> c \<and> c \<le> 90) \<or> (97 \<le> c \<and> c \<le> 122) \<or> c = 95)"

fun wordBefore :: "nat option \<Rightarrow> bool" where
  "wordBefore None = False"
| "wordBefore (Some c) = isWordChar c"

fun wordAt :: "jsstring \<Rightarrow> bool" where
  "wordAt [] = False"
| "wordAt (c # cs) = isWordChar c"

type_synonym rxstate = "nat option \<times> jsstring"

fun matchLit :: "bool \<Rightarrow> jsstring \<Rightarrow> rxstate \<Rightarrow> rxstate list" where
  "matchLit ignoreCase [] st = [st]"
| "matchLit ignoreCase (c # cs) (prev, []) = []"
| "matchLit ignoreCase (c # cs) (prev, x # xs) =
     (if sameUnit ignoreCase x c then matchLit ignoreCase cs (Some x, xs) else [])"

text \<open>Zero or more code units of a class, the longest run first.\<close>

fun matchStar :: "bool \<Rightarrow> cclass \<Rightarrow> nat option \<Rightarrow> jsstring \<Rightarrow> rxstate list" where
  "matchStar ignoreCase k prev [] = [(prev, [])]"
| "matchStar ignoreCase k prev (x # xs) =
     (if inClass ignoreCase k x then matchStar ignoreCase k (Some x) xs else []) @ [(prev, x # xs)]"

fun matchRx :: "bool \<Rightarrow> regex \<Rightarrow> rxstate \<Rightarrow> rxstate list" where
  "matchRx ignoreCase (Lit s) st = matchLit ignoreCase s st"
| "matchRx ignoreCase (Cls k) (prev, []) = []"
| "matchRx ignoreCase (Cls k) (prev, x # xs) =
     (if inClass ignoreCase k x then [(Some x, xs)] else [])"
| "matchRx ignoreCase (ZeroOrMore k) (prev, xs) = matchStar ignoreCase k prev xs"
| "matchRx ignoreCase (OneOrMore k) (prev, []) = []"
| "matchRx ignoreCase (OneOrMore k) (prev, x # xs) =
     (if inClass ignoreCase k x then matchStar ignoreCase k (Some x) xs else [])"
| "matchRx ignoreCase (Seq r1 r2) st =
     concat (map (matchRx ignoreCase r2) (matchRx ignoreCase r1 st))"
| "matchRx ignoreCase (Alt r1 r2) st = matchRx ignoreCase r1 st @ matchRx ignoreCase r2 st"
| "matchRx ignoreCase (Opt r) st = matchRx ignoreCase r st @ [st]"
| "matchRx ignoreCase WordBoundary (prev, xs) =
     (if wordBefore prev \<noteq> wordAt xs then [(prev, xs)] else [])"

fun testFrom :: "bool \<Rightarrow> regex \<Rightarrow> nat option \<Rightarrow> jsstring \<Rightarrow> bool" where
  "testFrom ignoreCase r prev [] = (matchRx ignoreCase r (prev, []) \<noteq> [])"
| "testFrom ignoreCase r prev (x # xs) =
     (matchRx ignoreCase r (prev, x # xs) \<noteq> [] \<or> testFrom ignoreCase r (Some x) xs)"

definition test :: "bool \<Rightarrow> regex \<Rightarrow> jsstring \<Rightarrow> bool" where
  "test ignoreCase r s = testFrom ignoreCase r None s"

text \<open>A sequence and an alternation of several expressions.\<close>

fun seqs :: "regex list \<Rightarrow> regex" where
  "seqs [] = Lit []"
| "seqs [r] = r"
| "seqs (r # rs) = Seq r (seqs rs)"

fun alts :: "regex \<Rightarrow> regex list \<Rightarrow> regex" where
  "alts r [] = r"
| "alts r (r' # rs) = Alt r (alts r' rs)"

section \<open>rag.ts: the intent of a question\<close>

text \<open>
  The normal form of the question (\<open>askQuestion\<close>, lines 251-256): trimmed, lower-cased,
  without the punctuation \<open>[!?.,:;()"'`]\<close>, each run of white space one space.
\<close>

definition removePunctuation :: "jsstring \<Rightarrow> jsstring" where
  "removePunctuation s = filter (\<lambda>c. c \<notin> set [33, 63, 46, 44, 58, 59, 40, 41, 34, 39, 96]) s"

fun collapseSpaces :: "bool \<Rightarrow> jsstring \<Rightarrow> jsstring" where
  "collapseSpaces inRun [] = []"
| "collapseSpaces inRun (c # cs) =
     (if isWhiteSpace c
      then (if inRun then collapseSpaces True cs else 32 # collapseSpaces True cs)
      else c # collapseSpaces False cs)"

definition normalizeQuestion :: "jsstring \<Rightarrow> jsstring" where
  "normalizeQuestion raw = collapseSpaces False (removePunctuation (toLowerCase (trim raw)))"

text \<open>
  The three patterns of \<open>isNameQuery\<close> (lines 260-263). Each starts and ends with a
  word-boundary assertion; between them, with \<open>_\<close> for one or more white-space
  characters and in Latin transliteration: \<open>(kak_)?menya_zovut\<close>, \<open>mo[e|yo]_imya\<close> and
  \<open>imya_profil(ya|e)\<close>. They are tested on the normal form of the question.
\<close>

definition nameRx1 :: regex where
  "nameRx1 =
     seqs [WordBoundary,
           Opt (Seq (Lit [1082, 1072, 1082]) (OneOrMore Space)),
           Lit [1084, 1077, 1085, 1103], OneOrMore Space, Lit [1079, 1086, 1074, 1091, 1090],
           WordBoundary]"

definition nameRx2 :: regex where
  "nameRx2 =
     seqs [WordBoundary, Lit [1084, 1086], Cls (OneOf [1077, 1105]), OneOrMore Space, Lit [1080, 1084, 1103], WordBoundary]"

definition nameRx3 :: regex where
  "nameRx3 =
     seqs [WordBoundary, Lit [1080, 1084, 1103], OneOrMore Space, Lit [1087, 1088, 1086, 1092, 1080, 1083],
           Alt (Lit [1103]) (Lit [1077]), WordBoundary]"

definition isNameQuery :: "jsstring \<Rightarrow> bool" where
  "isNameQuery q = (test False nameRx1 q \<or> test False nameRx2 q \<or> test False nameRx3 q)"

text \<open>
  The pattern of \<open>isPersonalQuery\<close> (line 280): ten alternatives, literals joined by
  \<open>.*\<close>, with the flag \<open>i\<close>; it is tested on the question as typed. In transliteration:
  \<open>rasskazhi.*obo mne\<close>, \<open>kto ya\<close>, \<open>chto.*znaesh'.*obo mne\<close>, \<open>moy profil'\<close>,
  \<open>moya informatsiya\<close>, \<open>kakoe.*imya.*pol'zovatel\<close>, \<open>kakoe.*imya.*profil\<close>,
  \<open>kak.*menya.*zovut\<close>, \<open>moyo imya\<close>, \<open>moe imya\<close>.
\<close>

definition personalRx :: regex where
  "personalRx =
     alts (seqs [Lit [1088, 1072, 1089, 1089, 1082, 1072, 1078, 1080], ZeroOrMore AnyChar,
           Lit [1086, 1073, 1086, 32, 1084, 1085, 1077]])
       [Lit [1082, 1090, 1086, 32, 1103],
        seqs [Lit [1095, 1090, 1086], ZeroOrMore AnyChar, Lit [1079, 1085, 1072, 1077, 1096,
           1100], ZeroOrMore AnyChar, Lit [1086, 1073, 1086, 32, 1084, 1085, 1077]],
        Lit [1084, 1086, 1081, 32, 1087, 1088, 1086, 1092, 1080, 1083, 1100],
        Lit [1084, 1086, 1103, 32, 1080, 1085, 1092, 1086, 1088, 1084, 1072, 1094, 1080, 1103],
        seqs [Lit [1082, 1072, 1082, 1086, 1077], ZeroOrMore AnyChar, Lit [1080, 1084, 1103],
           ZeroOrMore AnyChar, Lit [1087, 1086, 1083, 1100, 1079, 1086, 1074, 1072, 1090, 1077,
           1083]],
        seqs [Lit [1082, 1072, 1082, 1086, 1077], ZeroOrMore AnyChar, Lit [1080, 1084, 1103],
           ZeroOrMore AnyChar, Lit [1087, 1088, 1086, 1092, 1080, 1083]],
        seqs [Lit [1082, 1072, 1082], ZeroOrMore AnyChar, Lit [1084, 1077, 1085, 1103],
           ZeroOrMore AnyChar, Lit [1079, 1086, 1074, 1091, 1090]],
        Lit [1084, 1086, 1105, 32, 1080, 1084, 1103],
        Lit [1084, 1086, 1077, 32, 1080, 1084, 1103]]"

definition isPersonalQuery :: "jsstring \<Rightarrow> bool" where
  "isPersonalQuery question = test True personalRx question"

text \<open>
  The pattern of \<open>isStatisticalQuery\<close> (line 308), with the flag \<open>i\<close>, tested on the
  question as typed. In transliteration: \<open>skol'ko\<close>, \<open>kakaya.*chashche\<close>,
  \<open>kakoy.*bol'she\<close>, \<open>kakaya.*samaya\<close>, \<open>top\<close>, \<open>statistika\<close>.
\<close>

definition statisticalRx :: regex where
  "statisticalRx =
     alts (Lit [1089, 1082, 1086, 1083, 1100, 1082, 1086])
       [seqs [Lit [1082, 1072, 1082, 1072, 1103], ZeroOrMore AnyChar, Lit [1095, 1072, 1097,
           1077]],
        seqs [Lit [1082, 1072, 1082, 1086, 1081], ZeroOrMore AnyChar, Lit [1073, 1086, 1083,
           1100, 1096, 1077]],
        seqs [Lit [1082, 1072, 1082, 1072, 1103], ZeroOrMore AnyChar, Lit [1089, 1072, 1084,
           1072, 1103]],
        Lit [1090, 1086, 1087],
        Lit [1089, 1090, 1072, 1090, 1080, 1089, 1090, 1080, 1082, 1072]]"

definition isStatisticalQuery :: "jsstring \<Rightarrow> bool" where
  "isStatisticalQuery question = test True statisticalRx question"

section \<open>rag.ts: statistics\<close>

text \<open>A non-negative integer as a string (its decimal digits).\<close>

fun showNat :: "nat \<Rightarrow> jsstring" where
  "showNat n = (if n < 10 then [48 + n] else showNat (n div 10) @ [48 + n mod 10])"

declare showNat.simps [simp del]

text \<open>
  The counters of \<open>getStatistics\<close> are objects used as dictionaries. The model is the
  list of the object's own properties in creation order, and holds for keys that are not
  names of members of \<open>Object.prototype\<close> (for those, \<open>obj[key] || 0\<close> reads the inherited
  member, which is not a number): \<open>plainKeys\<close> says of a corpus that no error type and no
  service of its records is such a name. \<open>countUp\<close> is \<open>obj[key] = (obj[key] || 0) + 1\<close>.
\<close>

definition objectPrototypeMembers :: "jsstring list" where
  "objectPrototypeMembers =
     map ascii [''constructor'', ''__defineGetter__'', ''__defineSetter__'', ''hasOwnProperty'',
                ''__lookupGetter__'', ''__lookupSetter__'', ''isPrototypeOf'',
                ''propertyIsEnumerable'', ''toString'', ''valueOf'', ''__proto__'',
                ''toLocaleString'']"

definition plainKeys :: "errorLog list \<Rightarrow> bool" where
  "plainKeys logs =
     list_all (\<lambda>logEntry. error_type logEntry \<notin> set objectPrototypeMembers
                         \<and> service logEntry \<notin> set objectPrototypeMembers) logs"

fun countUp :: "jsstring \<Rightarrow> (jsstring \<times> nat) list \<Rightarrow> (jsstring \<times> nat) list" where
  "countUp key [] = [(key, 1)]"
| "countUp key ((k, n) # rest) =
     (if k = key then (k, n + 1) # rest else (k, n) # countUp key rest)"

definition countBy :: "(errorLog \<Rightarrow> jsstring) \<Rightarrow> errorLog list \<Rightarrow> (jsstring \<times> nat) list" where
  "countBy field logs = foldl (\<lambda>obj logEntry. countUp (field logEntry) obj) [] logs"

text \<open>
  \<open>Object.entries\<close> lists the keys that are array indices (canonical decimal numerals
  below \<open>2^32 - 1\<close>) first, in ascending numeric order, then the other keys in creation
  order.
\<close>

definition digitsValue :: "jsstring \<Rightarrow> nat" where
  "digitsValue s = foldl (\<lambda>v c. 10 * v + (c - 48)) 0 s"

definition isArrayIndex :: "jsstring \<Rightarrow> bool" where
  "isArrayIndex s =
     (s \<noteq> [] \<and> list_all (\<lambda>c. 48 \<le> c \<and> c \<le> 57) s \<and> (hd s \<noteq> 48 \<or> length s = 1)
      \<and> digitsValue s < 4294967295)"

definition objectEntries :: "(jsstring \<times> nat) list \<Rightarrow> (jsstring \<times> nat) list" where
  "objectEntries obj =
     sort_key (\<lambda>(k, n). digitsValue k) (filter (\<lambda>(k, n). isArrayIndex k) obj)
     @ filter (\<lambda>(k, n). \<not> isArrayIndex k) obj"

text \<open>The comparator \<open>([, a], [, b]) => b - a\<close> and the line of one entry.\<close>

definition byCount :: "jsstring \<times> nat \<Rightarrow> jsstring \<times> nat \<Rightarrow> jsnum" where
  "byCount x y = Num (real (snd y) - real (snd x))"

definition statLine :: "jsstring \<times> nat \<Rightarrow> jsstring" where
  "statLine e = ascii ''  - '' @ fst e @ ascii '': '' @ showNat (snd e)"

definition sortedCounts :: "(errorLog \<Rightarrow> jsstring) \<Rightarrow> errorLog list \<Rightarrow> jsstring" where
  "sortedCounts field logs =
     join [10] (map statLine (arraySort byCount (objectEntries (countBy field logs))))"

text \<open>
  \<open>getStatistics\<close> (lines 183-213). The headings are Russian: "general statistics of
  the logs", "records in all", "errors by type", "errors by service".
\<close>

definition getStatistics :: "ragSystem \<Rightarrow> jsstring" where
  "getStatistics st =
     (let sortedErrors = sortedCounts error_type (allLogs st);
          sortedServices = sortedCounts service (allLogs st)
      in trim
      (
       [10]
       @ [1054, 1041, 1065, 1040, 1071, 32, 1057, 1058, 1040, 1058, 1048, 1057, 1058, 1048,
          1050, 1040, 32, 1051, 1054, 1043, 1054, 1042, 58, 10]
       @ ascii ''-----------------------'' @ [10]
       @ [1042, 1089, 1077, 1075, 1086, 32, 1079, 1072, 1087, 1080, 1089, 1077, 1081, 58, 32]
       @ showNat (length (allLogs st)) @ [10] @ [10]
       @ [1054, 1096, 1080, 1073, 1082, 1080, 32, 1087, 1086, 32, 1090, 1080, 1087, 1072, 1084,
          58, 10]
       @ sortedErrors @ [10] @ [10]
       @ [1054, 1096, 1080, 1073, 1082, 1080, 32, 1087, 1086, 32, 1089, 1077, 1088, 1074, 1080,
          1089, 1072, 1084, 58, 10]
       @ sortedServices @ [10] @ ascii ''    ''))"

text \<open>
  \<open>getPersonalizedSummary\<close> (lines 216-244): empty without a loaded profile; otherwise
  "all is quiet in your services (...)" or "important for you: n problem(s) in your
  services (...)", counting the records of the whole corpus that are relevant to the user.
\<close>

definition getPersonalizedSummary :: "ragSystem \<Rightarrow> jsstring" where
  "getPersonalizedSummary st =
     (case personalization st of
        None \<Rightarrow> []
      | Some m \<Rightarrow>
         (case getProfile m of
            None \<Rightarrow> []
          | Some p \<Rightarrow>
             (let userServices = services (responsibilities p);
                  relevantLogs =
                    filter (\<lambda>logEntry.
                              isRelevantToUser m (service logEntry) (error_type logEntry) = Inr True)
                      (allLogs st)
              in if length relevantLogs = 0
                 then (let emoji = (if useEmoji (preferences p) then [32, 9989] else [])
                       in
                       [10] @ emoji
                       @ [32, 1042, 32, 1090, 1074, 1086, 1080, 1093, 32, 1089, 1077, 1088,
                          1074, 1080, 1089, 1072, 1093, 32, 40]
                       @ join (ascii '', '') userServices
                       @ [41, 32, 1074, 1089, 1105, 32, 1089, 1087, 1086, 1082, 1086, 1081,
                          1085, 1086, 33])
                 else (let emoji = (if useEmoji (preferences p) then [32, 9888, 65039] else [])
                       in
                       [10] @ emoji
                       @ [32, 1042, 1040, 1046, 1053, 1054, 32, 1044, 1051, 1071, 32, 1058,
                          1045, 1041, 1071, 58, 32]
                       @ showNat (length relevantLogs)
                       @ [32, 1087, 1088, 1086, 1073, 1083, 1077, 1084]
                       @ (if length relevantLogs = 1 then [1072] else [])
                       @ [32, 1074, 32, 1090, 1074, 1086, 1080, 1093, 32, 1089, 1077, 1088,
                          1074, 1080, 1089, 1072, 1093, 32, 40]
                       @ join (ascii '', '') userServices @ [41]))))"

section \<open>rag.ts: the prompts\<close>

text \<open>
  The constants \<open>askQuestion\<close> builds before it calls the chat model (lines 316-451), each
  a function of what the source interpolates into it.
\<close>

text \<open>The rendering of the retrieved records (lines 316-328).\<close>

definition renderLog :: "env \<Rightarrow> nat \<Rightarrow> errorLog \<Rightarrow> jsstring" where
  "renderLog env idx logEntry =
     trim
      (
       [10] @ [91, 1047, 1072, 1087, 1080, 1089, 1100, 32] @ showNat (idx + 1) @ [93, 10]
       @ [1057, 1077, 1088, 1074, 1080, 1089, 58, 32] @ service logEntry @ [10]
       @ [1058, 1080, 1087, 32, 1086, 1096, 1080, 1073, 1082, 1080, 58, 32]
       @ error_type logEntry @ [10]
       @ [1057, 1086, 1086, 1073, 1097, 1077, 1085, 1080, 1077, 58, 32] @ message_text logEntry
       @ [10] @ [1042, 1088, 1077, 1084, 1103, 58, 32] @ timestamp logEntry @ [10]
       @ ascii ''User ID: ''
       @ (case user_id logEntry of None \<Rightarrow> ascii ''N/A'' | Some u \<Rightarrow> if u = [] then ascii ''N/A'' else u)
       @ [10] @ [1052, 1077, 1090, 1072, 1076, 1072, 1085, 1085, 1099, 1077, 58, 32]
       @ stringifyPretty env (metadata logEntry) @ [10] @ ascii ''      '')"

definition renderContext :: "env \<Rightarrow> errorLog list \<Rightarrow> jsstring" where
  "renderContext env relevantLogs =
     join ([10, 10] @ ascii ''---'' @ [10, 10])
       (map (\<lambda>(idx, logEntry). renderLog env idx logEntry)
            (zip [0 ..< length relevantLogs] relevantLogs))"

text \<open>\<open>userContext\<close> (lines 333-335); \<open>getUserContext\<close> throws when no profile is loaded.\<close>

definition userContext :: "ragSystem \<Rightarrow> jserror + jsstring" where
  "userContext st =
     (case personalization st of
        Some m \<Rightarrow>
          (case getUserContext m of
             Inl e \<Rightarrow> Inl e
           | Inr c \<Rightarrow> Inr (ascii ''USER CONTEXT:'' @ [10] @ c @ [10]))
      | None \<Rightarrow> Inr (ascii ''USER CONTEXT:'' @ [10] @ [1085, 1077, 32, 1079, 1072, 1076, 1072, 1085, 10]))"

text \<open>\<open>decisionPolicy\<close>, \<open>outputRules\<close>, \<open>responseFormat\<close>, \<open>emojiRule\<close> (lines 348-375).\<close>

definition decisionPolicy :: "jsstring \<Rightarrow> jsstring \<Rightarrow> jsstring \<Rightarrow> jsstring" where
  "decisionPolicy responsibleServices criticalErrorNames technicalLevelName =
     trim
      (
       [10] @ ascii ''DECISION POLICY (''
       @ [1054, 1041, 1071, 1047, 1040, 1058, 1045, 1051, 1068, 1053, 1054, 41, 58, 10]
       @ ascii ''1. ''
       @ [1045, 1089, 1083, 1080, 32, 1086, 1096, 1080, 1073, 1082, 1072, 32, 1086, 1090, 1085,
          1086, 1089, 1080, 1090, 1089, 1103, 32, 1082, 32, 1089, 1077, 1088, 1074, 1080, 1089,
          1072, 1084, 32, 1087, 1086, 1083, 1100, 1079, 1086, 1074, 1072, 1090, 1077, 1083,
          1103, 32, 40]
       @ responsibleServices
       @ [41, 32, 8594, 32, 1101, 1090, 1086, 32, 1043, 1051, 1040, 1042, 1053, 1067, 1049, 32,
          1055, 1056, 1048, 1054, 1056, 1048, 1058, 1045, 1058, 32, 1086, 1090, 1074, 1077,
          1090, 1072, 46, 10]
       @ ascii ''2. ''
       @ [1045, 1089, 1083, 1080, 32, 1090, 1080, 1087, 32, 1086, 1096, 1080, 1073, 1082, 1080,
          32, 1074, 1093, 1086, 1076, 1080, 1090, 32, 1074, 32, 1082, 1088, 1080, 1090, 1080,
          1095, 1085, 1099, 1077, 32, 40]
       @ criticalErrorNames
       @ [41, 32, 8594, 32, 1087, 1086, 1084, 1077, 1095, 1072, 1081, 32, 1082, 1072, 1082, 32,
          34, 1050, 1056, 1048, 1058, 1048, 1063, 1053, 1054, 32, 1044, 1051, 1071, 32, 1058,
          1045, 1041, 1071, 34, 32, 1080, 32, 1074, 1099, 1085, 1086, 1089, 1080, 32, 1074, 32,
          1085, 1072, 1095, 1072, 1083, 1086, 46, 10]
       @ ascii ''3. ''
       @ [1063, 1091, 1078, 1080, 1077, 32, 1089, 1077, 1088, 1074, 1080, 1089, 1099, 32, 1091,
          1087, 1086, 1084, 1080, 1085, 1072, 1081, 32, 1082, 1088, 1072, 1090, 1082, 1086, 44,
          32, 1073, 1077, 1079, 32, 1091, 1075, 1083, 1091, 1073, 1083, 1077, 1085, 1080, 1103,
          46, 10]
       @ ascii ''4. ''
       @ [1059, 1088, 1086, 1074, 1077, 1085, 1100, 32, 1086, 1073, 1098, 1103, 1089, 1085,
          1077, 1085, 1080, 1081, 58, 32]
       @ technicalLevelName
       @ [46, 32, 1041, 1072, 1079, 1086, 1074, 1099, 1077, 32, 1074, 1077, 1097, 1080, 32,
          1085, 1077, 32, 1086, 1073, 1098, 1103, 1089, 1085, 1103, 1081, 46, 10]
       @ ascii ''5. ''
       @ [1055, 1080, 1096, 1080, 32, 1085, 1072, 1087, 1088, 1103, 1084, 1091, 1102, 32, 1087,
          1086, 1083, 1100, 1079, 1086, 1074, 1072, 1090, 1077, 1083, 1102, 58, 32, 34, 1091,
          32, 1090, 1077, 1073, 1103, 34, 44, 32, 34, 1090, 1074, 1086, 1081, 32, 1089, 1077,
          1088, 1074, 1080, 1089, 34, 44, 32, 34, 1090, 1074, 1086, 1103, 32, 1079, 1086, 1085,
          1072, 32, 1086, 1090, 1074, 1077, 1090, 1089, 1090, 1074, 1077, 1085, 1085, 1086,
          1089, 1090, 1080, 34, 46, 10])"

definition outputRules :: jsstring where
  "outputRules =
     trim
      (
       [10] @ ascii ''OUTPUT RULES (''
       @ [1054, 1041, 1071, 1047, 1040, 1058, 1045, 1051, 1068, 1053, 1054, 41, 58, 10]
       @ [45, 32, 1047, 1072, 1087, 1088, 1077, 1097, 1077, 1085, 1086, 32, 1086, 1090, 1074,
          1077, 1095, 1072, 1090, 1100, 32, 1086, 1073, 1077, 1079, 1083, 1080, 1095, 1077,
          1085, 1085, 1086, 32, 40, 34, 1074, 32, 1089, 1080, 1089, 1090, 1077, 1084, 1077, 34,
          44, 32, 34, 1074, 32, 1094, 1077, 1083, 1086, 1084, 34, 44, 32, 34, 1086, 1073, 1099,
          1095, 1085, 1086, 34, 41, 46, 10]
       @ [45, 32, 1047, 1072, 1087, 1088, 1077, 1097, 1077, 1085, 1099, 32, 1087, 1088, 1077,
          1076, 1087, 1086, 1083, 1086, 1078, 1077, 1085, 1080, 1103, 32, 1073, 1077, 1079, 32,
          1076, 1072, 1085, 1085, 1099, 1093, 32, 40, 34, 1074, 1086, 1079, 1084, 1086, 1078,
          1085, 1086, 34, 44, 32, 34, 1074, 1077, 1088, 1086, 1103, 1090, 1085, 1086, 34, 41,
          32, 1074, 32, 1089, 1090, 1072, 1090, 1080, 1089, 1090, 1080, 1095, 1077, 1089, 1082,
          1086, 1084, 32, 1088, 1077, 1078, 1080, 1084, 1077, 46, 10]
       @ [45, 32, 1045, 1089, 1083, 1080] @ ascii '' emoji ''
       @ [1086, 1090, 1082, 1083, 1102, 1095, 1077, 1085, 1099, 32, 8212, 32, 1085, 1077, 32,
          1080, 1089, 1087, 1086, 1083, 1100, 1079, 1091, 1081]
       @ ascii '' emoji '' @ [1074, 1086, 1086, 1073, 1097, 1077, 46, 10]
       @ [45, 32, 1053, 1077, 32, 1087, 1077, 1088, 1077, 1089, 1082, 1072, 1079, 1099, 1074,
          1072, 1081, 32, 1083, 1086, 1075, 1080, 58, 32, 1072, 1085, 1072, 1083, 1080, 1079,
          1080, 1088, 1091, 1081, 32, 1080, 32, 1076, 1077, 1083, 1072, 1081, 32, 1074, 1099,
          1074, 1086, 1076, 1099, 46, 10])"

definition responseFormat :: jsstring where
  "responseFormat =
     trim
      (
       [10] @ ascii ''RESPONSE FORMAT (''
       @ [1054, 1041, 1071, 1047, 1040, 1058, 1045, 1051, 1045, 1053, 41, 58, 10]
       @ ascii ''1) '' @ [1042, 1067, 1042, 1054, 1044] @ ascii '' (1''
       @ [8211, 50, 32, 1089, 1090, 1088, 1086, 1082, 1080, 44, 32, 1087, 1077, 1088, 1089,
          1086, 1085, 1072, 1083, 1100, 1085, 1086, 41, 10]
       @ ascii ''2) ''
       @ [1063, 1058, 1054, 32, 1055, 1056, 1054, 1048, 1057, 1061, 1054, 1044, 1048, 1058, 32,
          40, 1092, 1072, 1082, 1090, 1099, 44, 32, 1094, 1080, 1092, 1088, 1099, 41, 10]
       @ ascii ''3) ''
       @ [1055, 1054, 1063, 1045, 1052, 1059, 32, 1069, 1058, 1054, 32, 1042, 1040, 1046, 1053,
          1054, 32, 1044, 1051, 1071, 32, 1058, 1045, 1041, 1071, 10]
       @ ascii ''4) ''
       @ [1063, 1058, 1054, 32, 1055, 1056, 1054, 1042, 1045, 1056, 1048, 1058, 1068]
       @ ascii '' / ''
       @ [1057, 1044, 1045, 1051, 1040, 1058, 1068, 32, 40, 1084, 1072, 1088, 1082, 1080, 1088,
          1086, 1074, 1072, 1085, 1085, 1099, 1081, 32, 1089, 1087, 1080, 1089, 1086, 1082, 41,
          10])"

definition emojiRule :: "bool \<Rightarrow> jsstring" where
  "emojiRule emojiAllowed =
     (if emojiAllowed
      then ascii ''EMOJI: ''
           @ [1088, 1072, 1079, 1088, 1077, 1096, 1077, 1085, 1099, 44, 32, 1085, 1086, 32,
              1091, 1084, 1077, 1088, 1077, 1085, 1085, 1086]
           @ ascii '' (0''
           @ [8211, 51, 32, 1085, 1072, 32, 1086, 1090, 1074, 1077, 1090, 41, 46]
      else ascii ''EMOJI: '' @ [1079, 1072, 1087, 1088, 1077, 1097, 1077, 1085, 1099, 46])"

text \<open>\<open>baseSystemPrompt\<close> (lines 377-402).\<close>

definition baseSystemPrompt :: "ragSystem \<Rightarrow> jsstring \<Rightarrow> jsstring" where
  "baseSystemPrompt st userContextText =
     (let profile = (case personalization st of None \<Rightarrow> None | Some m \<Rightarrow> getProfile m);
          technicalLevelName =
            (case profile of
               None \<Rightarrow> ascii ''advanced''
             | Some p \<Rightarrow>
                 if technicalLevel (preferences p) = [] then ascii ''advanced''
                 else technicalLevel (preferences p));
          emojiAllowed = (case profile of None \<Rightarrow> False | Some p \<Rightarrow> useEmoji (preferences p));
          responsibleServices =
            (case profile of
               None \<Rightarrow> notSpecified
             | Some p \<Rightarrow>
                 if length (services (responsibilities p)) \<noteq> 0
                 then join (ascii '', '') (services (responsibilities p)) else notSpecified);
          criticalErrorNames =
            (case profile of
               None \<Rightarrow> notSpecified
             | Some p \<Rightarrow>
                 if length (criticalErrors (responsibilities p)) \<noteq> 0
                 then join (ascii '', '') (criticalErrors (responsibilities p)) else notSpecified)
      in trim
      (
       [10] @ ascii ''ROLE:'' @ [10]
       @ [1058, 1099, 32, 8212, 32, 1087, 1077, 1088, 1089, 1086, 1085, 1072, 1083, 1100, 1085,
          1099, 1081, 32, 1072, 1085, 1072, 1083, 1080, 1090, 1080, 1082, 32, 1083, 1086, 1075,
          1086, 1074, 32, 1080, 32, 1086, 1096, 1080, 1073, 1086, 1082]
       @ ascii '' (RAG). ''
       @ [1058, 1099, 32, 1086, 1090, 1074, 1077, 1095, 1072, 1077, 1096, 1100, 32, 1054, 1044,
          1053, 1054, 1052, 1059, 32, 1087, 1086, 1083, 1100, 1079, 1086, 1074, 1072, 1090,
          1077, 1083, 1102, 32, 1080, 32, 1086, 1073, 1103, 1079, 1072, 1085, 32, 1091, 1095,
          1080, 1090, 1099, 1074, 1072, 1090, 1100, 32, 1077, 1075, 1086, 32, 1087, 1088, 1086,
          1092, 1080, 1083, 1100, 46, 10]
       @ [10] @ ascii ''IMPORTANT:'' @ [10]
       @ [1048, 1075, 1085, 1086, 1088, 1080, 1088, 1086, 1074, 1072, 1085, 1080, 1077, 32,
          1087, 1077, 1088, 1089, 1086, 1085, 1072, 1083, 1080, 1079, 1072, 1094, 1080, 1080,
          32, 1089, 1095, 1080, 1090, 1072, 1077, 1090, 1089, 1103, 32, 1086, 1096, 1080, 1073,
          1082, 1086, 1081, 32, 1086, 1090, 1074, 1077, 1090, 1072, 46, 10]
       @ [10] @ ascii ''Brevity policy:'' @ [10]
       @ [45, 32, 1045, 1089, 1083, 1080, 32, 1074, 1086, 1087, 1088, 1086, 1089, 32, 1084,
          1086, 1078, 1085, 1086, 32, 1079, 1072, 1082, 1088, 1099, 1090, 1100, 32, 1086, 1076,
          1085, 1080, 1084, 32, 1092, 1072, 1082, 1090, 1086, 1084, 47, 1095, 1080, 1089, 1083,
          1086, 1084, 47, 1089, 1083, 1086, 1074, 1086, 1084, 32, 8212, 32, 1086, 1090, 1074,
          1077, 1090, 1100, 32, 1086, 1076, 1085, 1086, 1081, 32, 1089, 1090, 1088, 1086, 1082,
          1086, 1081, 46, 10]
       @ [45, 32, 1053, 1045, 32, 1076, 1086, 1073, 1072, 1074, 1083, 1103, 1081, 32, 1088,
          1072, 1079, 1076, 1077, 1083, 1099, 32, 1080, 32, 1089, 1087, 1080, 1089, 1082, 1080,
          44, 32, 1077, 1089, 1083, 1080, 32, 1086, 1085, 1080, 32, 1085, 1077, 32, 1085, 1091,
          1078, 1085, 1099, 32, 1076, 1083, 1103, 32, 1086, 1090, 1074, 1077, 1090, 1072, 46,
          10]
       @ [45, 32, 1060, 1086, 1088, 1084, 1072, 1090, 32, 1080, 1079] @ ascii '' 4 ''
       @ [1089, 1077, 1082, 1094, 1080, 1081, 32, 1080, 1089, 1087, 1086, 1083, 1100, 1079,
          1091, 1081, 32, 1090, 1086, 1083, 1100, 1082, 1086, 32, 1082, 1086, 1075, 1076, 1072,
          32, 1074, 1086, 1087, 1088, 1086, 1089, 32, 1090, 1088, 1077, 1073, 1091, 1077, 1090,
          32, 1086, 1073, 1098, 1103, 1089, 1085, 1077, 1085, 1080, 1103, 47, 1072, 1085, 1072,
          1083, 1080, 1079, 1072, 46, 1101, 10]
       @ [10] @ ascii ''Personal questions about the user profile:'' @ [10]
       @ [45, 32, 1045, 1089, 1083, 1080, 32, 1074, 1086, 1087, 1088, 1086, 1089, 32, 1087,
          1088, 1086, 32, 1080, 1084, 1103, 47, 1088, 1086, 1083, 1100, 47, 1088, 1072, 1073,
          1086, 1095, 1080, 1077, 32, 1095, 1072, 1089, 1099, 47, 1089, 1077, 1088, 1074, 1080,
          1089, 1099, 32, 8212, 32, 1086, 1090, 1074, 1077, 1095, 1072, 1081, 32, 1058, 1054,
          1051, 1068, 1050, 1054, 32, 1076, 1072, 1085, 1085, 1099, 1084, 1080, 32, 1087, 1088,
          1086, 1092, 1080, 1083, 1103, 46, 10]
       @ [45, 32, 1047, 1072, 1087, 1088, 1077, 1097, 1077, 1085, 1086, 32, 1076, 1086, 1073,
          1072, 1074, 1083, 1103, 1090, 1100, 32, 1072, 1085, 1072, 1083, 1080, 1079, 32, 1083,
          1086, 1075, 1086, 1074, 44, 32, 1089, 1090, 1072, 1090, 1080, 1089, 1090, 1080, 1082,
          1091, 32, 1080, 32, 1088, 1077, 1082, 1086, 1084, 1077, 1085, 1076, 1072, 1094, 1080,
          1080, 46, 10]
       @ [10] @ emojiRule emojiAllowed @ [10] @ [10] @ userContextText @ [10] @ [10]
       @ decisionPolicy responsibleServices criticalErrorNames technicalLevelName @ [10] @ [10]
       @ outputRules @ [10] @ [10] @ responseFormat @ [10]))"

text \<open>
  The prompts of the two modes (lines 408-451). In the statistics mode neither the system
  prompt nor the user message is given the retrieved records.
\<close>

definition statisticsPrefix :: "jsstring \<Rightarrow> jsstring" where
  "statisticsPrefix base =
     [10] @ base @ [10] @ [10] @ ascii ''MODE: STATISTICS'' @ [10] @ [10]
     @ ascii ''AVAILABLE DATA:'' @ [10]
     @ [1048, 1089, 1087, 1086, 1083, 1100, 1079, 1091, 1081, 32, 1058, 1054, 1051, 1068, 1050,
        1054, 32, 1072, 1075, 1088, 1077, 1075, 1080, 1088, 1086, 1074, 1072, 1085, 1085, 1091,
        1102, 32, 1089, 1090, 1072, 1090, 1080, 1089, 1090, 1080, 1082, 1091, 32, 1085, 1080,
        1078, 1077, 46, 32, 1055, 1088, 1080, 1084, 1077, 1088, 1099, 32, 1083, 1086, 1075,
        1086, 1074, 32, 1080, 1075, 1085, 1086, 1088, 1080, 1088, 1091, 1081, 32, 1087, 1086,
        1083, 1085, 1086, 1089, 1090, 1100, 1102, 46, 10]
     @ [10] @ ascii ''STATISTICS:'' @ [10]"

definition statisticsSuffix :: jsstring where
  "statisticsSuffix =
     [10] @ [10] @ ascii ''RULES FOR THIS MODE:'' @ [10] @ ascii ''1) ''
     @ [1042, 1089, 1077, 32, 1094, 1080, 1092, 1088, 1099, 32, 1076, 1086, 1083, 1078, 1085,
        1099, 32, 1073, 1099, 1090, 1100, 32, 1089, 1090, 1088, 1086, 1075, 1086, 32, 1080,
        1079]
     @ ascii '' STATISTICS.'' @ [10] @ ascii ''2) ''
     @ [1053, 1080, 1082, 1072, 1082, 1080, 1093, 32, 1076, 1086, 1075, 1072, 1076, 1086, 1082,
        44, 32, 1085, 1080, 1082, 1072, 1082, 1080, 1093, 32, 34, 1074, 1086, 1079, 1084, 1086,
        1078, 1085, 1086, 47, 1074, 1077, 1088, 1086, 1103, 1090, 1085, 1086, 34, 46, 10]
     @ ascii ''3) ''
     @ [1045, 1089, 1083, 1080, 32, 1074, 1086, 1087, 1088, 1086, 1089, 32, 1087, 1088, 1086,
        32, 1089, 1077, 1088, 1074, 1080, 1089, 1099, 32, 1087, 1086, 1083, 1100, 1079, 1086,
        1074, 1072, 1090, 1077, 1083, 1103, 32, 8212, 32, 1091, 1087, 1086, 1084, 1103, 1085,
        1080, 32, 1101, 1090, 1086, 32, 1074, 32, 1042, 1067, 1042, 1054, 1044, 1045, 46, 10]
     @ ascii ''4) ''
     @ [1045, 1089, 1083, 1080, 32, 1082, 1088, 1080, 1090, 1080, 1095, 1085, 1072, 1103, 32,
        1086, 1096, 1080, 1073, 1082, 1072, 32, 1074, 1089, 1090, 1088, 1077, 1095, 1072, 1077,
        1090, 1089, 1103, 32, 8212, 32, 1103, 1074, 1085, 1086, 32, 1087, 1086, 1084, 1077,
        1090, 1100, 32, 34, 1050, 1056, 1048, 1058, 1048, 1063, 1053, 1054, 32, 1044, 1051,
        1071, 32, 1058, 1045, 1041, 1071, 34, 46, 10]"

definition statisticsSystemPrompt :: "jsstring \<Rightarrow> jsstring \<Rightarrow> jsstring" where
  "statisticsSystemPrompt base stats = trim (statisticsPrefix base @ stats @ statisticsSuffix)"

definition statisticsUserMessage :: "jsstring \<Rightarrow> jsstring" where
  "statisticsUserMessage question = trim (ascii ''QUESTION:'' @ [10] @ question)"

definition analysisSystemPrompt :: "jsstring \<Rightarrow> jsstring \<Rightarrow> nat \<Rightarrow> nat \<Rightarrow> jsstring" where
  "analysisSystemPrompt base stats shown corpusSize =
     trim
      (
       [10] @ base @ [10] @ [10] @ ascii ''MODE: ANALYSIS'' @ [10] @ [10]
       @ ascii ''GLOBAL STATISTICS (''
       @ [1076, 1083, 1103, 32, 1087, 1086, 1076, 1089, 1095, 1105, 1090, 1086, 1074, 32, 1080,
          32, 1082, 1086, 1085, 1090, 1077, 1082, 1089, 1090, 1072, 41, 58, 10]
       @ stats @ [10] @ [10] @ ascii ''CONTEXT LOGS:'' @ [10]
       @ [1053, 1080, 1078, 1077, 32, 1087, 1088, 1080, 1074, 1077, 1076, 1077, 1085, 1099, 32,
          1087, 1088, 1080, 1084, 1077, 1088, 1099, 32, 40]
       @ showNat shown @ [32, 1080, 1079, 32] @ showNat corpusSize @ ascii ''). ''
       @ [1054, 1085, 1080, 32, 1053, 1045, 32, 1086, 1090, 1088, 1072, 1078, 1072, 1102, 1090,
          32, 1087, 1086, 1083, 1085, 1091, 1102, 32, 1082, 1072, 1088, 1090, 1080, 1085, 1091,
          46, 10]
       @ [1048, 1089, 1087, 1086, 1083, 1100, 1079, 1091, 1081, 32, 1080, 1093, 32, 1058, 1054,
          1051, 1068, 1050, 1054, 32, 1076, 1083, 1103, 32, 1076, 1077, 1090, 1072, 1083, 1077,
          1081, 32, 40, 1089, 1080, 1084, 1087, 1090, 1086, 1084, 1099, 44, 32, 1087, 1072,
          1090, 1090, 1077, 1088, 1085, 1099, 44, 32, 1087, 1088, 1080, 1084, 1077, 1088, 1099,
          32, 1089, 1086, 1086, 1073, 1097, 1077, 1085, 1080, 1081]
       @ ascii ''), ''
       @ [1072, 32, 1085, 1077, 32, 1076, 1083, 1103, 32, 1080, 1090, 1086, 1075, 1086, 1074,
          1099, 1093, 32, 1087, 1086, 1076, 1089, 1095, 1105, 1090, 1086, 1074, 46, 10])"

definition analysisUserMessage :: "jsstring \<Rightarrow> jsstring \<Rightarrow> jsstring" where
  "analysisUserMessage question context =
     trim
      (
       [10] @ ascii ''QUESTION:'' @ [10] @ question @ [10] @ [10] @ ascii ''LOG EXAMPLES:''
       @ [10] @ context @ [10])"

section \<open>rag.ts: answering a question\<close>

text \<open>
  \<open>OllamaClient.chat\<close> (ollama.ts, lines 27-58): the chunks are concatenated and, when a
  callback is given, passed to it one by one; an error is thrown again. The result is the
  outcome, the tokens given to the callback, and the world.
\<close>

definition chat ::
  "env \<Rightarrow> world \<Rightarrow> jsstring \<Rightarrow> jsstring \<Rightarrow> bool \<Rightarrow> (jserror + jsstring) \<times> jsstring list \<times> world" where
  "chat env w systemPrompt userMessage onToken =
     (case chatFn env (length (chatCalls w)) systemPrompt userMessage of
        (chunks, failure) \<Rightarrow>
          ((case failure of None \<Rightarrow> Inr (concat chunks) | Some e \<Rightarrow> Inl e),
           (if onToken then chunks else []),
           w\<lparr> chatCalls := chatCalls w @ [(systemPrompt, userMessage)] \<rparr>))"

text \<open>
  An answer given without the chat model: returned, and passed to the callback one code
  unit at a time (\<open>response.split("").forEach(onToken)\<close>).
\<close>

definition reply :: "world \<Rightarrow> bool \<Rightarrow> jsstring \<Rightarrow> (jserror + jsstring) \<times> jsstring list \<times> world" where
  "reply w onToken response =
     (Inr response, (if onToken then map (\<lambda>c. [c]) response else []), w)"

definition nameNotSet :: jsstring where
  \<comment> \<open>"The name is not set in the profile."\<close>
  "nameNotSet = [1048, 1084, 1103, 32, 1074, 32, 1087, 1088, 1086, 1092, 1080, 1083, 1077, 32, 1085, 1077, 32,
   1079, 1072, 1076, 1072, 1085, 1086, 46]"

text \<open>The answer to a question about the user (lines 286-304), "Here is what I know about you".\<close>

definition personalResponse :: "ragSystem \<Rightarrow> userProfile \<Rightarrow> jsstring \<Rightarrow> jsstring" where
  "personalResponse st p context =
     (let emoji = (if useEmoji (preferences p) then [55357, 56420, 32] else [])
      in
       emoji
       @ [1042, 1086, 1090, 32, 1095, 1090, 1086, 32, 1103, 32, 1079, 1085, 1072, 1102, 32,
          1086, 32, 1090, 1077, 1073, 1077, 58, 10]
       @ [10] @ context @ [10] @ [10]
       @ [1056, 1072, 1073, 1086, 1095, 1080, 1077, 32, 1095, 1072, 1089, 1099, 58, 32]
       @ wh_start (workingHours p) @ ascii '' - '' @ wh_end (workingHours p) @ [10]
       @ [1057, 1090, 1080, 1083, 1100, 32, 1086, 1090, 1074, 1077, 1090, 1086, 1074, 58, 32]
       @ answerStyle (preferences p) @ [10]
       @ [1058, 1077, 1093, 1085, 1080, 1095, 1077, 1089, 1082, 1080, 1081, 32, 1091, 1088,
          1086, 1074, 1077, 1085, 1100, 58, 32]
       @ technicalLevel (preferences p) @ [10] @ [10] @ getPersonalizedSummary st)"

text \<open>
  The third path of \<open>askQuestion\<close> (lines 307-457): embed the question and rank (the
  top 8), render the retrieved records, build the prompts of the mode and call the chat
  model. An error of the embedding request or of \<open>getUserContext\<close> is thrown to the caller.
\<close>

definition retrieveAndChat ::
  "env \<Rightarrow> ragSystem \<Rightarrow> world \<Rightarrow> jsstring \<Rightarrow> bool \<Rightarrow> (jserror + jsstring) \<times> jsstring list \<times> world" where
  "retrieveAndChat env st w question onToken =
     (let statistical = isStatisticalQuery question in
      case findRelevantLogs env st w question 8 of
        (Inl e, w1) \<Rightarrow> (Inl e, [], w1)
      | (Inr relevantLogs, w1) \<Rightarrow>
         (let context = renderContext env relevantLogs in
          case userContext st of
            Inl e \<Rightarrow> (Inl e, [], w1)
          | Inr userContextText \<Rightarrow>
             (let base = baseSystemPrompt st userContextText in
              if statistical
              then chat env w1 (statisticsSystemPrompt base (getStatistics st))
                     (statisticsUserMessage question) onToken
              else chat env w1
                     (analysisSystemPrompt base (getStatistics st) (length relevantLogs)
                        (length (allLogs st)))
                     (analysisUserMessage question context) onToken)))"

text \<open>\<open>this.personalization?.getProfile?.() ?? null\<close> (line 258).\<close>

definition currentProfile :: "ragSystem \<Rightarrow> userProfile option" where
  "currentProfile st = (case personalization st of None \<Rightarrow> None | Some m \<Rightarrow> getProfile m)"

text \<open>
  \<open>askQuestion\<close> (lines 247-458). \<open>onToken\<close> tells whether a callback is given. The name
  branch and the profile branch return before anything is embedded; the third branch
  embeds the question, ranks, builds the prompts and calls the chat model.
\<close>

definition askQuestion ::
  "env \<Rightarrow> ragSystem \<Rightarrow> world \<Rightarrow> jsstring \<Rightarrow> bool \<Rightarrow> (jserror + jsstring) \<times> jsstring list \<times> world" where
  "askQuestion env st w question onToken =
     (let q = normalizeQuestion question;
          profile = currentProfile st
      in
      if isNameQuery q then
        (case profile of
           Some p \<Rightarrow>
             if name p \<noteq> []
             then reply w onToken ((if useEmoji (preferences p) then [55357, 56420, 32] else []) @ name p)
             else reply w onToken nameNotSet
         | None \<Rightarrow> reply w onToken nameNotSet)
      else
        (case (if isPersonalQuery question then personalization st else None) of
           Some m \<Rightarrow>
             (case getProfile m of
                Some p \<Rightarrow>
                  (case getUserContext m of
                     Inl e \<Rightarrow> (Inl e, [], w)
                   | Inr context \<Rightarrow> reply w onToken (personalResponse st p context))
              | None \<Rightarrow> retrieveAndChat env st w question onToken)
         | None \<Rightarrow> retrieveAndChat env st w question onToken))"

text \<open>
  The source has no classifier of its own: the intent of a question is the path
  \<open>askQuestion\<close> takes for it. The name test comes first; the profile path needs the
  pattern and a loaded profile; the statistics pattern chooses between the two modes of the
  third path.
\<close>

datatype queryIntent = NameLookup | PersonalProfile | Statistical | Analytical

definition intentOf :: "ragSystem \<Rightarrow> jsstring \<Rightarrow> queryIntent" where
  "intentOf st question =
     (if isNameQuery (normalizeQuestion question) then NameLookup
      else if isPersonalQuery question \<and> currentProfile st \<noteq> None then PersonalProfile
      else if isStatisticalQuery question then Statistical
      else Analytical)"

section \<open>Sample data\<close>

text \<open>
  Concrete values on which the model is evaluated: the profile of the repository's tests
  (typed, and as the JSON value it is parsed from), a corpus of three records (two
  \<open>payment\<close>/\<open>Timeout\<close>, one \<open>auth\<close>/\<open>AuthFailed\<close>), collaborators that always answer, and a
  world that holds the corpus file and an empty, writable cache directory.
\<close>

definition testProfile :: userProfile where
  "testProfile =
     \<lparr> name = [1057, 1077, 1088, 1075, 1077, 1081],
       role = ascii ''DevOps Engineer'',
       experience = [53, 32, 1083, 1077, 1090, 32, 1086, 1087, 1099, 1090, 1072],
       timezone = ascii ''Europe/Moscow'',
       preferences =
         \<lparr> answerStyle = [1082, 1088, 1072, 1090, 1082, 1080, 1081],
           includeRecommendations = True,
           technicalLevel = [1087, 1088, 1086, 1076, 1074, 1080, 1085, 1091, 1090, 1099, 1081],
           useEmoji = True \<rparr>,
       responsibilities =
         \<lparr> services = [ascii ''api-gateway'', ascii ''auth-service''],
           criticalErrors = [ascii ''OutOfMemoryError'', ascii ''DatabaseConnectionFailed''] \<rparr>,
       workingHours = \<lparr> wh_start = ascii ''09:00'', wh_end = ascii ''18:00'' \<rparr> \<rparr>"

definition testProfileJson :: json where
  "testProfileJson =
     JObj [(ascii ''name'', JStr [1057, 1077, 1088, 1075, 1077, 1081]),
           (ascii ''role'', JStr (ascii ''DevOps Engineer'')),
           (ascii ''experience'', JStr [53, 32, 1083, 1077, 1090, 32, 1086, 1087, 1099, 1090, 1072]),
           (ascii ''timezone'', JStr (ascii ''Europe/Moscow'')),
           (ascii ''preferences'',
              JObj [(ascii ''answerStyle'', JStr [1082, 1088, 1072, 1090, 1082, 1080, 1081]),
                    (ascii ''includeRecommendations'', JBool True),
                    (ascii ''technicalLevel'',
                       JStr [1087, 1088, 1086, 1076, 1074, 1080, 1085, 1091, 1090, 1099, 1081]),
                    (ascii ''useEmoji'', JBool True)]),
           (ascii ''responsibilities'',
              JObj [(ascii ''services'',
                       JArr [JStr (ascii ''api-gateway''), JStr (ascii ''auth-service'')]),
                    (ascii ''criticalErrors'',
                       JArr [JStr (ascii ''OutOfMemoryError''),
                             JStr (ascii ''DatabaseConnectionFailed'')])]),
           (ascii ''workingHours'',
              JObj [(ascii ''start'', JStr (ascii ''09:00'')),
                    (ascii ''end'', JStr (ascii ''18:00''))])]"

definition timeoutLog1 :: errorLog where
  "timeoutLog1 =
     \<lparr> timestamp = ascii ''2024-01-15T10:00:00Z'', level = ascii ''ERROR'',
       service = ascii ''payment'', error_type = ascii ''Timeout'',
       message_text = ascii ''gateway timed out'', user_id = Some (ascii ''u1''),
       request_id = ascii ''r1'', stack_trace = [], metadata = JObj [] \<rparr>"

definition timeoutLog2 :: errorLog where
  "timeoutLog2 =
     \<lparr> timestamp = ascii ''2024-01-15T10:05:00Z'', level = ascii ''ERROR'',
       service = ascii ''payment'', error_type = ascii ''Timeout'',
       message_text = ascii ''gateway timed out again'', user_id = None,
       request_id = ascii ''r2'', stack_trace = [], metadata = JObj [] \<rparr>"

definition authFailedLog :: errorLog where
  "authFailedLog =
     \<lparr> timestamp = ascii ''2024-01-15T10:10:00Z'', level = ascii ''ERROR'',
       service = ascii ''auth'', error_type = ascii ''AuthFailed'',
       message_text = ascii ''bad token'', user_id = Some (ascii ''u2''),
       request_id = ascii ''r3'', stack_trace = [], metadata = JObj [] \<rparr>"

definition sampleLogs :: "errorLog list" where
  "sampleLogs = [timeoutLog1, timeoutLog2, authFailedLog]"

definition sampleEnv :: env where
  "sampleEnv =
     \<lparr> jsonParseLogs = (\<lambda>s. if s = ascii ''corpus'' then Inr sampleLogs
                              else Inl (ascii ''Unexpected token'')),
       md5hex = (\<lambda>s. ascii ''md5:'' @ s),
       baseName = (\<lambda>p. ascii ''error-logs''),
       stringify = (\<lambda>v. ascii ''{}''),
       stringifyPretty = (\<lambda>v. ascii ''{}''),
       embedFn = (\<lambda>n prompt. Inr [1, 0]),
       chatFn = (\<lambda>n systemPrompt userMessage. ([ascii ''ok''], None)) \<rparr>"

definition corpusPath :: jsstring where
  "corpusPath = ascii ''./data/error-logs.json''"

definition sampleWorld :: world where
  "sampleWorld =
     \<lparr> files = (\<lambda>p. if p = corpusPath then Inr (ascii ''corpus'')
                     else Inl (ErrnoException (ascii ''ENOENT'') (ascii ''no such file''))),
       cacheFiles = (\<lambda>p. None),
       cacheWritable = (\<lambda>p. True),
       now = ascii ''2024-01-16T00:00:00.000Z'',
       embedCalls = [],
       chatCalls = [] \<rparr>"

text \<open>An index of the corpus in which the first and the third record have the same score
  against the query \<open>[1, 0]\<close>, and one whose first record has a zero vector.\<close>

definition sampleIndex :: "embeddedLog list" where
  "sampleIndex =
     [\<lparr> logRec = timeoutLog1, embedding = [1, 0], logText = logToText sampleEnv (timeoutLog1) \<rparr>,
      \<lparr> logRec = timeoutLog2, embedding = [0, 1], logText = logToText sampleEnv (timeoutLog2) \<rparr>,
      \<lparr> logRec = authFailedLog, embedding = [2, 0], logText = logToText sampleEnv (authFailedLog) \<rparr>]"

definition zeroIndex :: "embeddedLog list" where
  "zeroIndex =
     [\<lparr> logRec = timeoutLog1, embedding = [0, 0], logText = logToText sampleEnv (timeoutLog1) \<rparr>,
      \<lparr> logRec = authFailedLog, embedding = [1, 0], logText = logToText sampleEnv (authFailedLog) \<rparr>]"

text \<open>
  An index of seven records, numbered from 0 in their \<open>request_id\<close>. Against the query
  \<open>[1, 0]\<close> record 0 scores 0, record 4 has a zero vector, and the others score 1.
\<close>

definition numberedLog :: "nat \<Rightarrow> errorLog" where
  "numberedLog n = timeoutLog1\<lparr> request_id := ascii ''r'' @ [48 + n] \<rparr>"

definition numberedEntry :: "nat \<Rightarrow> real list \<Rightarrow> embeddedLog" where
  "numberedEntry n vector =
     \<lparr> logRec = numberedLog n, embedding = vector,
       logText = logToText sampleEnv (numberedLog n) \<rparr>"

definition tiedIndex :: "embeddedLog list" where
  "tiedIndex =
     [numberedEntry 0 [0, 1], numberedEntry 1 [1, 0], numberedEntry 2 [1, 0],
      numberedEntry 3 [1, 0], numberedEntry 4 [0, 0], numberedEntry 5 [1, 0],
      numberedEntry 6 [1, 0]]"

text \<open>An embedding model whose second request fails.\<close>

definition connectionRefused :: jserror where
  "connectionRefused = Error (ascii ''connect ECONNREFUSED 127.0.0.1:11434'')"

definition failingEnv :: env where
  "failingEnv = sampleEnv\<lparr> embedFn := (\<lambda>n prompt. if n = 1 then Inl connectionRefused else Inr [1, 0]) \<rparr>"

text \<open>A world whose cache directory holds a valid cache of the corpus.\<close>

definition cachedWorld :: world where
  "cachedWorld =
     sampleWorld\<lparr> cacheFiles :=
       (\<lambda>p. if p = getCachePath sampleEnv corpusPath
             then Some \<lparr> fileHash = ascii ''md5:corpus'', cachedLogs = sampleIndex,
                         createdAt = ascii ''2024-01-15T12:00:00.000Z'' \<rparr>
             else None) \<rparr>"

text \<open>
  Questions, in Russian: "what is my name and how many errors are there in all" (the
  question of the specification), "who am I", "how many Timeout errors?", and a question
  in which Latin letters touch the words of the name pattern.
\<close>

definition mixedQuestion :: jsstring where
  "mixedQuestion =
     [1082, 1072, 1082, 32, 1084, 1077, 1085, 1103, 32, 1079, 1086, 1074, 1091, 1090, 32, 1080,
      32, 1089, 1082, 1086, 1083, 1100, 1082, 1086, 32, 1074, 1089, 1077, 1075, 1086, 32, 1086,
      1096, 1080, 1073, 1086, 1082]"

definition whoAmIQuestion :: jsstring where
  "whoAmIQuestion = [1082, 1090, 1086, 32, 1103]"

definition timeoutQuestion :: jsstring where
  "timeoutQuestion =
     [1089, 1082, 1086, 1083, 1100, 1082, 1086, 32, 1086, 1096, 1080, 1073, 1086, 1082, 32]
     @ ascii ''Timeout?''"

definition latinEdgedQuestion :: jsstring where
  "latinEdgedQuestion =
     [65, 1084, 1077, 1085, 1103, 32, 1079, 1086, 1074, 1091, 1090, 66, 32, 1089, 1082, 1086,
      1083, 1100, 1082, 1086]"

text \<open>A record of a service the test profile is responsible for, and two systems: one
  with the test profile loaded, one with the corpus and its index but no profile.\<close>

definition gatewayLog :: errorLog where
  "gatewayLog =
     \<lparr> timestamp = ascii ''2024-01-15T11:00:00Z'', level = ascii ''ERROR'',
       service = ascii ''api-gateway'', error_type = ascii ''OutOfMemoryError'',
       message_text = ascii ''heap exhausted'', user_id = None,
       request_id = ascii ''r4'', stack_trace = [], metadata = JObj [] \<rparr>"

definition profiledSystem :: ragSystem where
  "profiledSystem = setPersonalization newRAGSystem \<lparr> profile = Some testProfile \<rparr>"

definition indexedSystem :: ragSystem where
  "indexedSystem = \<lparr> embeddedLogs = sampleIndex, allLogs = sampleLogs, personalization = None \<rparr>"

text \<open>
  A system on the same corpus with the message and the user of every record blanked, and
  nothing indexed.
\<close>

definition anonymousSystem :: ragSystem where
  "anonymousSystem =
     \<lparr> embeddedLogs = [],
       allLogs = map (\<lambda>logEntry. logEntry\<lparr> message_text := ascii ''redacted'', user_id := None \<rparr>)
                   sampleLogs,
       personalization = None \<rparr>"

section \<open>Properties of the user profile\<close>

text \<open>
  Claim C9. For a loaded profile, \<open>isRelevantToUser\<close> returns true exactly when the service
  name equals, after lower-casing both sides, an entry of the responsibility services, or
  the error type equals, after lower-casing both sides, an entry of the critical errors.
  In particular, when the profile lists \<open>api-gateway\<close> and \<open>OutOfMemoryError\<close>, the pair
  \<open>API-Gateway\<close>, \<open>outofmemoryerror\<close> is relevant.
\<close>

theorem isRelevantToUser_iff:
  "isRelevantToUser \<lparr> profile = Some p \<rparr> serviceName errorType =
     Inr ((\<exists>s \<in> set (services (responsibilities p)). toLowerCase s = toLowerCase serviceName)
        \<or> (\<exists>e \<in> set (criticalErrors (responsibilities p)). toLowerCase e = toLowerCase errorType))
   \<and> (ascii ''api-gateway'' \<in> set (services (responsibilities p)) \<and>
      ascii ''OutOfMemoryError'' \<in> set (criticalErrors (responsibilities p))
      \<longrightarrow> isRelevantToUser \<lparr> profile = Some p \<rparr> (ascii ''API-Gateway'') (ascii ''outofmemoryerror'')
          = Inr True)"
proof -
  have "toLowerCase (ascii ''api-gateway'') = toLowerCase (ascii ''API-Gateway'')"
    by (simp add: toLowerCase_def lowerUnit_def ascii_def)
  then show ?thesis
    by (auto simp add: isRelevantToUser_def list_ex_iff)
qed

theorem isRelevantToUser_iff_witness:
  "ascii ''api-gateway'' \<in> set (services (responsibilities testProfile)) \<and>
   ascii ''OutOfMemoryError'' \<in> set (criticalErrors (responsibilities testProfile)) \<and>
   isRelevantToUser \<lparr> profile = Some testProfile \<rparr> (ascii ''API-Gateway'') (ascii ''outofmemoryerror'')
     = Inr True \<and>
   isRelevantToUser \<lparr> profile = Some testProfile \<rparr> (ascii ''unknown-service'') (ascii ''UnknownError'')
     = Inr False"
proof -
  have a: "ascii ''api-gateway'' \<in> set (services (responsibilities testProfile))"
    and b: "ascii ''OutOfMemoryError'' \<in> set (criticalErrors (responsibilities testProfile))"
    by (simp_all add: testProfile_def)
  have c: "isRelevantToUser \<lparr> profile = Some testProfile \<rparr> (ascii ''API-Gateway'')
             (ascii ''outofmemoryerror'') = Inr True"
    using isRelevantToUser_iff [of testProfile "ascii ''API-Gateway''" "ascii ''outofmemoryerror''"] a b
    by blast
  have d: "isRelevantToUser \<lparr> profile = Some testProfile \<rparr> (ascii ''unknown-service'')
             (ascii ''UnknownError'') = Inr False"
    using isRelevantToUser_iff [of testProfile "ascii ''unknown-service''" "ascii ''UnknownError''"]
    by (simp add: testProfile_def toLowerCase_def lowerUnit_def ascii_def)
  from a b c d show ?thesis by blast
qed

lemma loadProfile_failure_unchanged:
  "isl (fst (loadProfile resolve readFile jsonParse m profilePath)) \<Longrightarrow>
   snd (loadProfile resolve readFile jsonParse m profilePath) = m"
  by (auto simp add: loadProfile_def split: sum.splits)

lemma loadProfile_stored_valid:
  assumes "case profile m of None \<Rightarrow> True | Some j \<Rightarrow> validateProfile j = Inr ()"
  shows "case profile (snd (loadProfile resolve readFile jsonParse m profilePath)) of
           None \<Rightarrow> True | Some j \<Rightarrow> validateProfile j = Inr ()"
  using assms by (auto simp add: loadProfile_def split: sum.splits)

lemma validateProfile_testProfileJson: "validateProfile testProfileJson = Inr ()"
  by (simp add: validateProfile_def testProfileJson_def requiredFields_def ascii_def)

text \<open>
  Claim C10. Loading a profile is atomic: a call of \<open>loadProfile\<close> that fails, for
  whatever reason, leaves the stored profile as it was; and in every manager a program
  can hold, the stored profile is either absent or a value that passes every check of
  \<open>validateProfile\<close>, so \<open>getProfile\<close> never returns one that failed validation.
\<close>

theorem loadProfile_atomic:
  assumes "reachable resolve jsonParse m"
  shows "(case getProfile m of None \<Rightarrow> True | Some j \<Rightarrow> validateProfile j = Inr ())
       \<and> (\<forall>readFile profilePath.
            isl (fst (loadProfile resolve readFile jsonParse m profilePath))
            \<longrightarrow> snd (loadProfile resolve readFile jsonParse m profilePath) = m)"
proof
  from assms show "case getProfile m of None \<Rightarrow> True | Some j \<Rightarrow> validateProfile j = Inr ()"
    unfolding getProfile_def
  proof (induction rule: reachable.induct)
    case fresh
    show ?case by (simp add: newManager_def)
  next
    case (load m readFile profilePath)
    from load.IH show ?case by (rule loadProfile_stored_valid)
  qed
next
  show "\<forall>readFile profilePath.
          isl (fst (loadProfile resolve readFile jsonParse m profilePath))
          \<longrightarrow> snd (loadProfile resolve readFile jsonParse m profilePath) = m"
    by (simp add: loadProfile_failure_unchanged)
qed

theorem loadProfile_atomic_witness:
  "reachable (\<lambda>p. p) (\<lambda>s. Inr testProfileJson)
     (snd (loadProfile (\<lambda>p. p) (\<lambda>p. Inr []) (\<lambda>s. Inr testProfileJson) newManager
        (ascii ''./config/profile.json'')))
   \<and> getProfile (snd (loadProfile (\<lambda>p. p) (\<lambda>p. Inr []) (\<lambda>s. Inr testProfileJson) newManager
         (ascii ''./config/profile.json''))) = Some testProfileJson
   \<and> validateProfile testProfileJson = Inr ()
   \<and> isl (fst (loadProfile (\<lambda>p. p) (\<lambda>p. Inl (ErrnoException (ascii ''ENOENT'') []))
         (\<lambda>s. Inr testProfileJson) \<lparr> profile = Some testProfileJson \<rparr> (ascii ''./missing.json'')))
   \<and> snd (loadProfile (\<lambda>p. p) (\<lambda>p. Inl (ErrnoException (ascii ''ENOENT'') []))
         (\<lambda>s. Inr testProfileJson) \<lparr> profile = Some testProfileJson \<rparr> (ascii ''./missing.json''))
       = \<lparr> profile = Some testProfileJson \<rparr>"
proof -
  let ?parse = "\<lambda>s :: jsstring. (Inr testProfileJson :: jsstring + json)"
  let ?m = "snd (loadProfile (\<lambda>p. p) (\<lambda>p. Inr []) ?parse newManager (ascii ''./config/profile.json''))"
  have r: "reachable (\<lambda>p. p) ?parse ?m"
    by (intro reachable.intros)
  have m: "?m = \<lparr> profile = Some testProfileJson \<rparr>"
    by (simp add: loadProfile_def validateProfile_testProfileJson newManager_def)
  have f: "isl (fst (loadProfile (\<lambda>p. p) (\<lambda>p. Inl (ErrnoException (ascii ''ENOENT'') []))
         ?parse \<lparr> profile = Some testProfileJson \<rparr> (ascii ''./missing.json'')))"
    by (simp add: loadProfile_def)
  from loadProfile_atomic [OF r] f r show ?thesis
    unfolding m by (simp add: getProfile_def)
qed

section \<open>Properties of the ranking\<close>

lemma filter_insertBy:
  assumes "\<And>y. P x \<Longrightarrow> P y \<Longrightarrow> \<not> positive (cmp x y)"
  shows "filter P (insertBy cmp x ys) = filter P (x # ys)"
  using assms by (induction ys) auto

lemma filter_sortBy:
  assumes "\<And>x y. P x \<Longrightarrow> P y \<Longrightarrow> \<not> positive (cmp x y)"
  shows "filter P (sortBy cmp xs) = filter P xs"
  unfolding sortBy_def
  by (induction xs) (simp_all add: filter_insertBy assms)

lemma jsMinus_self_not_positive: "\<not> positive (jsMinus s s)"
  by (cases s) simp_all

lemma mset_insertBy: "mset (insertBy cmp x ys) = add_mset x (mset ys)"
  by (induction ys) auto

lemma mset_sortBy: "mset (sortBy cmp xs) = mset xs"
  unfolding sortBy_def by (induction xs) (simp_all add: mset_insertBy)

lemma length_sortBy: "length (sortBy cmp xs) = length xs"
  by (metis mset_sortBy size_mset)

lemma set_insertBy: "set (insertBy cmp x ys) = insert x (set ys)"
  by (induction ys) auto

lemma set_sortBy: "set (sortBy cmp xs) = set xs"
  by (metis mset_sortBy set_mset_mset)

lemma sortBy_stable:
  "filter (\<lambda>x. similarity x = s) (sortBy bySimilarity xs) = filter (\<lambda>x. similarity x = s) xs"
  by (rule filter_sortBy) (simp add: bySimilarity_def jsMinus_self_not_positive)

text \<open>
  Where every score is a number the comparator is consistent, and \<open>sortBy\<close> is in
  descending order of score.
\<close>

lemma positive_bySimilarity_Num:
  "similarity a = Num ra \<Longrightarrow> similarity b = Num rb \<Longrightarrow>
   positive (bySimilarity a b) = (ra < rb)"
  by (simp add: bySimilarity_def)

lemma descending_insertBy:
  assumes num: "\<And>y. y \<in> set (x # ys) \<Longrightarrow> \<exists>r. similarity y = Num r"
    and srt: "sorted_wrt (\<lambda>a b. \<not> positive (bySimilarity a b)) ys"
  shows "sorted_wrt (\<lambda>a b. \<not> positive (bySimilarity a b)) (insertBy bySimilarity x ys)"
  using assms
proof (induction ys)
  case Nil
  then show ?case by simp
next
  case (Cons y ys)
  obtain rx where rx: "similarity x = Num rx" using Cons.prems(1) [of x] by auto
  obtain ry where ry: "similarity y = Num ry" using Cons.prems(1) [of y] by auto
  have tail: "sorted_wrt (\<lambda>a b. \<not> positive (bySimilarity a b)) ys"
    and head: "\<And>z. z \<in> set ys \<Longrightarrow> \<not> positive (bySimilarity y z)"
    using Cons.prems(2) by simp_all
  show ?case
  proof (cases "positive (bySimilarity x y)")
    case True
    then have "rx < ry" using rx ry by (simp add: positive_bySimilarity_Num)
    then have "\<not> positive (bySimilarity y x)" using rx ry by (simp add: positive_bySimilarity_Num)
    moreover have "sorted_wrt (\<lambda>a b. \<not> positive (bySimilarity a b)) (insertBy bySimilarity x ys)"
    proof (rule Cons.IH [OF _ tail])
      fix z assume "z \<in> set (x # ys)"
      then show "\<exists>r. similarity z = Num r" using Cons.prems(1) [of z] by auto
    qed
    ultimately show ?thesis using True head by (simp add: set_insertBy)
  next
    case False
    then have le: "ry \<le> rx" using rx ry by (simp add: positive_bySimilarity_Num)
    have "\<not> positive (bySimilarity x z)" if z: "z \<in> set ys" for z
    proof -
      obtain rz where rz: "similarity z = Num rz" using Cons.prems(1) [of z] z by auto
      from head [OF z] have "rz \<le> ry" using ry rz by (simp add: positive_bySimilarity_Num)
      with le show ?thesis using rx rz by (simp add: positive_bySimilarity_Num)
    qed
    with False Cons.prems(2) show ?thesis by simp
  qed
qed

lemma descending_sortBy:
  assumes "\<And>y. y \<in> set xs \<Longrightarrow> \<exists>r. similarity y = Num r"
  shows "sorted_wrt (\<lambda>a b. \<not> positive (bySimilarity a b)) (sortBy bySimilarity xs)"
  using assms
proof (induction xs)
  case Nil
  then show ?case by (simp add: sortBy_def)
next
  case (Cons x xs)
  have "sorted_wrt (\<lambda>a b. \<not> positive (bySimilarity a b)) (sortBy bySimilarity xs)"
    using Cons by simp
  then have "sorted_wrt (\<lambda>a b. \<not> positive (bySimilarity a b))
               (insertBy bySimilarity x (sortBy bySimilarity xs))"
    using Cons.prems by (intro descending_insertBy) (auto simp add: set_sortBy)
  then show ?case by (simp add: sortBy_def)
qed

text \<open>
  There \<open>sortBy\<close> is the library's stable sort by descending score: by its
  characterisation (\<open>properties_for_sort_key\<close>) it is the only stable, sorted
  rearrangement of the scores, whatever algorithm an engine uses.
\<close>

lemma insertBy_insort_key:
  assumes "\<And>y. y \<in> set (x # ys) \<Longrightarrow> \<exists>r. similarity y = Num r"
  shows "insertBy bySimilarity x ys = insort_key (\<lambda>z. - numberOf (similarity z)) x ys"
  using assms
proof (induction ys)
  case Nil
  then show ?case by simp
next
  case (Cons y ys)
  obtain rx where rx: "similarity x = Num rx" using Cons.prems [of x] by auto
  obtain ry where ry: "similarity y = Num ry" using Cons.prems [of y] by auto
  have "insertBy bySimilarity x ys = insort_key (\<lambda>z. - numberOf (similarity z)) x ys"
    using Cons.prems by (intro Cons.IH) auto
  then show ?case
    using rx ry by (auto simp add: positive_bySimilarity_Num)
qed

lemma sortBy_sort_key:
  assumes "\<And>y. y \<in> set xs \<Longrightarrow> \<exists>r. similarity y = Num r"
  shows "sortBy bySimilarity xs = sort_key (\<lambda>z. - numberOf (similarity z)) xs"
  using assms
proof (induction xs)
  case Nil
  then show ?case by (simp add: sortBy_def)
next
  case (Cons x xs)
  have ih: "sortBy bySimilarity xs = sort_key (\<lambda>z. - numberOf (similarity z)) xs"
    using Cons by simp
  have "insertBy bySimilarity x (sortBy bySimilarity xs)
          = insort_key (\<lambda>z. - numberOf (similarity z)) x (sortBy bySimilarity xs)"
    using Cons.prems by (intro insertBy_insort_key) (auto simp add: set_sortBy)
  then show ?case
    by (simp add: sortBy_def ih [unfolded sortBy_def])
qed

text \<open>
  The engine's sort, unfolded one step at a time.
\<close>

lemma findInsertionPoint_step:
  "left < right \<Longrightarrow>
   findInsertionPoint comparefn pivot workArray left right =
     (if negative (comparefn pivot (workArray ! (left + (right - left) div 2)))
      then findInsertionPoint comparefn pivot workArray left (left + (right - left) div 2)
      else findInsertionPoint comparefn pivot workArray (left + (right - left) div 2 + 1) right)"
  by (subst findInsertionPoint.simps) (simp add: Let_def)

lemma findInsertionPoint_done:
  "\<not> left < right \<Longrightarrow> findInsertionPoint comparefn pivot workArray left right = left"
  by (subst findInsertionPoint.simps) simp

lemma binaryInsertionSort_step:
  "start < high \<Longrightarrow>
   binaryInsertionSort comparefn workArray start high =
     binaryInsertionSort comparefn
       (take (findInsertionPoint comparefn (workArray ! start) workArray 0 start) workArray
        @ [workArray ! start]
        @ drop (findInsertionPoint comparefn (workArray ! start) workArray 0 start)
            (take start workArray)
        @ drop (start + 1) workArray)
       (start + 1) high"
  by (subst binaryInsertionSort.simps) (simp add: Let_def)

lemma binaryInsertionSort_done:
  "\<not> start < high \<Longrightarrow> binaryInsertionSort comparefn workArray start high = workArray"
  by (subst binaryInsertionSort.simps) simp

text \<open>
  Whatever the comparator returns, the engine's sort rearranges the array: the binary
  search stays between its bounds, and an insertion moves one element.
\<close>

lemma findInsertionPoint_bounds:
  "left \<le> right \<Longrightarrow>
   left \<le> findInsertionPoint c pivot work left right
   \<and> findInsertionPoint c pivot work left right \<le> right"
proof (induction c pivot work left right rule: findInsertionPoint.induct)
  case (1 c pivot work left right)
  show ?case
  proof (cases "left < right")
    case False
    with "1.prems" show ?thesis by (simp add: findInsertionPoint_done)
  next
    case True
    define mid where "mid = left + (right - left) div 2"
    from True have m: "left \<le> mid" "mid < right"
      by (simp_all add: mid_def)
    show ?thesis
    proof (cases "negative (c pivot (work ! mid))")
      case neg: True
      have "left \<le> findInsertionPoint c pivot work left mid
            \<and> findInsertionPoint c pivot work left mid \<le> mid"
        using True mid_def neg by (rule "1.IH"(1) [OF _ _ refl]) (rule m)
      moreover have "findInsertionPoint c pivot work left right
                        = findInsertionPoint c pivot work left mid"
        using True neg by (simp add: findInsertionPoint_step mid_def)
      ultimately show ?thesis using m by simp
    next
      case nonneg: False
      have "mid + 1 \<le> findInsertionPoint c pivot work (mid + 1) right
            \<and> findInsertionPoint c pivot work (mid + 1) right \<le> right"
        using True mid_def nonneg by (rule "1.IH"(2) [OF _ _ refl]) (use m in simp)
      moreover have "findInsertionPoint c pivot work left right
                        = findInsertionPoint c pivot work (mid + 1) right"
        using True nonneg by (simp add: findInsertionPoint_step mid_def)
      ultimately show ?thesis using m by simp
    qed
  qed
qed

lemma mset_binaryInsertionSort:
  "start \<le> high \<Longrightarrow> high \<le> length work \<Longrightarrow>
   mset (binaryInsertionSort c work start high) = mset work"
proof (induction c work start high rule: binaryInsertionSort.induct)
  case (1 c work start high)
  show ?case
  proof (cases "start < high")
    case False
    then show ?thesis by (simp add: binaryInsertionSort_done)
  next
    case True
    define pivot where "pivot = work ! start"
    define left where "left = findInsertionPoint c pivot work 0 start"
    define work' where
      "work' = take left work @ [pivot] @ drop left (take start work) @ drop (start + 1) work"
    from True "1.prems" have sl: "start < length work" by simp
    have l: "left \<le> start"
      unfolding left_def using findInsertionPoint_bounds [of 0 start c pivot work] by simp
    then have "take left work = take left (take start work)"
      by (simp add: min_def)
    then have "mset (take left work) + mset (drop left (take start work)) = mset (take start work)"
      by (metis append_take_drop_id mset_append)
    then have "mset work' = mset (take start work @ [pivot] @ drop (start + 1) work)"
      by (simp add: work'_def)
    also have "take start work @ [pivot] @ drop (start + 1) work = work"
      using sl by (simp add: pivot_def id_take_nth_drop [symmetric])
    finally have m: "mset work' = mset work" .
    have len: "length work' = length work"
      using sl l by (simp add: work'_def)
    have "mset (binaryInsertionSort c work' (start + 1) high) = mset work'"
      unfolding work'_def left_def pivot_def
      by (rule "1.IH" [OF True refl refl])
         (use True "1.prems" len in \<open>simp_all add: work'_def left_def pivot_def\<close>)
    moreover have "binaryInsertionSort c work start high
                     = binaryInsertionSort c work' (start + 1) high"
      using True by (simp add: binaryInsertionSort_step work'_def left_def pivot_def)
    ultimately show ?thesis using m by simp
  qed
qed

lemma runLength_le: "runLength c desc prev rest \<le> length rest"
  by (induction rest arbitrary: prev) (simp_all add: Let_def)

lemma countAndMakeRun_mset:
  assumes "countAndMakeRun c xs = (n, work)"
  shows "n \<le> length xs \<and> mset work = mset xs"
proof (cases xs)
  case Nil
  with assms show ?thesis by (simp add: countAndMakeRun_def)
next
  case (Cons x0 tail)
  show ?thesis
  proof (cases tail)
    case Nil
    with Cons assms show ?thesis by (auto simp add: countAndMakeRun_def)
  next
    case tail: (Cons x1 rest)
    define desc where "desc = negative (c x1 x0)"
    have xs: "xs = x0 # x1 # rest" by (simp add: Cons tail)
    have n: "n = 2 + runLength c desc x1 rest"
      and w: "work = (if desc then rev (take n xs) @ drop n xs else xs)"
      using assms by (auto simp add: xs countAndMakeRun_def Let_def desc_def)
    have "n \<le> length xs"
      using runLength_le [of c desc x1 rest] by (simp add: n xs)
    moreover have "mset (rev (take n xs) @ drop n xs) = mset xs"
      by (metis append_take_drop_id mset_append mset_rev)
    ultimately show ?thesis by (simp add: w)
  qed
qed

lemma mset_arraySort: "mset (arraySort c xs) = mset xs"
proof (cases "engineSort c xs")
  case None
  then show ?thesis by (simp add: arraySort_def mset_sortBy)
next
  case (Some ys)
  show ?thesis
  proof (cases "length xs < 2")
    case True
    with Some show ?thesis by (simp add: arraySort_def engineSort_def)
  next
    case False
    obtain n work where run: "countAndMakeRun c xs = (n, work)"
      by (cases "countAndMakeRun c xs")
    from countAndMakeRun_mset [OF run] have n: "n \<le> length xs" and m: "mset work = mset xs"
      by simp_all
    from m have "length work = length xs"
      by (metis size_mset)
    with n have "mset (binaryInsertionSort c work n (length xs)) = mset work"
      by (intro mset_binaryInsertionSort) simp_all
    with Some False m show ?thesis
      by (auto simp add: arraySort_def engineSort_def run split: if_splits)
  qed
qed

lemma length_arraySort: "length (arraySort c xs) = length xs"
  by (metis mset_arraySort size_mset)

lemma set_arraySort: "set (arraySort c xs) = set xs"
  by (metis mset_arraySort set_mset_mset)

text \<open>
  Where the comparator is consistent, that is where it orders the elements by a key
  (\<open>comparefn(a, b) < 0\<close> exactly where the key of \<open>a\<close> is below the key of \<open>b\<close>), the
  engine's sort is the stable sort by that key. The binary search finds the place behind
  the elements whose key is not above the pivot's; the run at the start is sorted, and its
  reversal, being strict, moves no two elements of one key.
\<close>

lemma findInsertionPoint_correct:
  fixes k :: "'a \<Rightarrow> 'b::linorder"
  assumes "\<And>i. i < start \<Longrightarrow> negative (c pivot (work ! i)) = (k pivot < k (work ! i))"
    and "\<And>i j. i \<le> j \<Longrightarrow> j < start \<Longrightarrow> k (work ! i) \<le> k (work ! j)"
    and "left \<le> right" and "right \<le> start"
    and "\<And>i. i < left \<Longrightarrow> k (work ! i) \<le> k pivot"
    and "\<And>i. right \<le> i \<Longrightarrow> i < start \<Longrightarrow> k pivot < k (work ! i)"
  shows "left \<le> findInsertionPoint c pivot work left right
       \<and> findInsertionPoint c pivot work left right \<le> right
       \<and> (\<forall>i < findInsertionPoint c pivot work left right. k (work ! i) \<le> k pivot)
       \<and> (\<forall>i. findInsertionPoint c pivot work left right \<le> i \<and> i < start
              \<longrightarrow> k pivot < k (work ! i))"
  using assms
proof (induction c pivot work left right rule: findInsertionPoint.induct)
  case (1 c pivot work left right)
  show ?case
  proof (cases "left < right")
    case False
    with "1.prems" show ?thesis
      by (simp add: findInsertionPoint_done)
  next
    case True
    define mid where "mid = left + (right - left) div 2"
    from True have m: "left \<le> mid" "mid < right"
      by (simp_all add: mid_def) 
    with "1.prems"(4) have ms: "mid < start" by simp
    show ?thesis
    proof (cases "negative (c pivot (work ! mid))")
      case neg: True
      with "1.prems"(1) [OF ms] have lt: "k pivot < k (work ! mid)" by simp
      have hi: "\<And>i. mid \<le> i \<Longrightarrow> i < start \<Longrightarrow> k pivot < k (work ! i)"
      proof -
        fix i assume "mid \<le> i" "i < start"
        then have "k (work ! mid) \<le> k (work ! i)" by (rule "1.prems"(2))
        with lt show "k pivot < k (work ! i)" by simp
      qed
      have "left \<le> findInsertionPoint c pivot work left mid
          \<and> findInsertionPoint c pivot work left mid \<le> mid
          \<and> (\<forall>i < findInsertionPoint c pivot work left mid. k (work ! i) \<le> k pivot)
          \<and> (\<forall>i. findInsertionPoint c pivot work left mid \<le> i \<and> i < start
                 \<longrightarrow> k pivot < k (work ! i))"
        using True mid_def neg
      proof (rule "1.IH"(1) [OF _ _ refl])
        show "left \<le> mid" by (rule m)
        show "mid \<le> start" using ms by simp
      qed (use "1.prems" hi in auto)
      moreover have "findInsertionPoint c pivot work left right
                        = findInsertionPoint c pivot work left mid"
        using True neg by (simp add: findInsertionPoint_step mid_def)
      ultimately show ?thesis using m by auto
    next
      case nonneg: False
      with "1.prems"(1) [OF ms] have le: "k (work ! mid) \<le> k pivot" by simp
      have lo: "\<And>i. i < mid + 1 \<Longrightarrow> k (work ! i) \<le> k pivot"
      proof -
        fix i assume "i < mid + 1"
        then have "i \<le> mid" by simp
        then have "k (work ! i) \<le> k (work ! mid)" using ms by (rule "1.prems"(2))
        with le show "k (work ! i) \<le> k pivot" by simp
      qed
      have "mid + 1 \<le> findInsertionPoint c pivot work (mid + 1) right
          \<and> findInsertionPoint c pivot work (mid + 1) right \<le> right
          \<and> (\<forall>i < findInsertionPoint c pivot work (mid + 1) right. k (work ! i) \<le> k pivot)
          \<and> (\<forall>i. findInsertionPoint c pivot work (mid + 1) right \<le> i \<and> i < start
                 \<longrightarrow> k pivot < k (work ! i))"
        using True mid_def nonneg
      proof (rule "1.IH"(2) [OF _ _ refl])
        show "mid + 1 \<le> right" using m by simp
        show "right \<le> start" by (rule "1.prems"(4))
      qed (use "1.prems" lo in auto)
      moreover have "findInsertionPoint c pivot work left right
                        = findInsertionPoint c pivot work (mid + 1) right"
        using True nonneg by (simp add: findInsertionPoint_step mid_def)
      ultimately show ?thesis using m by auto
    qed
  qed
qed

lemma insertion_point:
  fixes k :: "'a \<Rightarrow> 'b::linorder"
  assumes agree: "\<And>x. x \<in> set ordered \<Longrightarrow> negative (c pivot x) = (k pivot < k x)"
    and srt: "sorted (map k ordered)"
    and work: "take start work = ordered" "start \<le> length work"
  shows "findInsertionPoint c pivot work 0 start \<le> start
       \<and> (\<forall>x \<in> set (take (findInsertionPoint c pivot work 0 start) ordered). k x \<le> k pivot)
       \<and> (\<forall>x \<in> set (drop (findInsertionPoint c pivot work 0 start) ordered). k pivot < k x)"
proof -
  let ?l = "findInsertionPoint c pivot work 0 start"
  have len: "length ordered = start"
    using work by auto
  have nth: "\<And>i. i < start \<Longrightarrow> work ! i = ordered ! i"
    using work(1) by (metis nth_take)
  have a: "\<And>i. i < start \<Longrightarrow> negative (c pivot (work ! i)) = (k pivot < k (work ! i))"
    using agree nth len by simp
  have s: "\<And>i j. i \<le> j \<Longrightarrow> j < start \<Longrightarrow> k (work ! i) \<le> k (work ! j)"
  proof -
    fix i j assume ij: "i \<le> j" "j < start"
    with srt len have "map k ordered ! i \<le> map k ordered ! j"
      by (simp add: sorted_iff_nth_mono del: nth_map)
    with ij len show "k (work ! i) \<le> k (work ! j)"
      by (simp add: nth)
  qed
  have r: "0 \<le> ?l \<and> ?l \<le> start \<and> (\<forall>i < ?l. k (work ! i) \<le> k pivot)
           \<and> (\<forall>i. ?l \<le> i \<and> i < start \<longrightarrow> k pivot < k (work ! i))"
    by (rule findInsertionPoint_correct [where k = k and c = c and pivot = pivot and work = work
          and start = start and left = 0 and right = start])
       (simp_all add: a s)
  have "\<forall>x \<in> set (take ?l ordered). k x \<le> k pivot"
  proof
    fix x assume "x \<in> set (take ?l ordered)"
    then obtain i where "i < length (take ?l ordered)" and "x = take ?l ordered ! i"
      by (auto simp add: in_set_conv_nth)
    with r len show "k x \<le> k pivot"
      by (simp add: nth [symmetric])
  qed
  moreover have "\<forall>x \<in> set (drop ?l ordered). k pivot < k x"
  proof
    fix x assume "x \<in> set (drop ?l ordered)"
    then obtain i where i: "i < length (drop ?l ordered)" and x: "x = drop ?l ordered ! i"
      by (auto simp add: in_set_conv_nth)
    from i len r have "?l + i < start" by simp
    with r x len show "k pivot < k x"
      by (simp add: nth [symmetric])
  qed
  ultimately show ?thesis using r by blast
qed

lemma binaryInsertionSort_sorts:
  fixes k :: "'a \<Rightarrow> 'b::linorder"
  assumes "\<And>a b. a \<in> set xs \<Longrightarrow> b \<in> set xs \<Longrightarrow> negative (c a b) = (k a < k b)"
    and "high = length xs" and "start \<le> high" and "length work = length xs"
    and "drop start work = drop start xs"
    and "mset (take start work) = mset (take start xs)"
    and "sorted (map k (take start work))"
    and "\<And>v. filter (\<lambda>x. k x = v) (take start work) = filter (\<lambda>x. k x = v) (take start xs)"
  shows "mset (binaryInsertionSort c work start high) = mset xs
       \<and> sorted (map k (binaryInsertionSort c work start high))
       \<and> (\<forall>v. filter (\<lambda>x. k x = v) (binaryInsertionSort c work start high)
                = filter (\<lambda>x. k x = v) xs)"
  using assms
proof (induction c work start high rule: binaryInsertionSort.induct)
  case (1 c work start high)
  show ?case
  proof (cases "start < high")
    case False
    with "1.prems" show ?thesis
      by (simp add: binaryInsertionSort_done)
  next
    case True
    define pivot where "pivot = work ! start"
    define ordered where "ordered = take start work"
    define left where "left = findInsertionPoint c pivot work 0 start"
    define work' where
      "work' = take left work @ [pivot] @ drop left (take start work) @ drop (start + 1) work"
    from True "1.prems" have sl: "start < length work" "start < length xs"
      by simp_all
    have pivot: "pivot = xs ! start"
      using "1.prems"(5) sl unfolding pivot_def
      by (metis Cons_nth_drop_Suc list.inject)
    have sub: "set ordered \<subseteq> set xs"
      using "1.prems"(6) unfolding ordered_def
      by (metis mset_eq_setD set_take_subset)
    have pin: "pivot \<in> set xs"
      using pivot sl by simp
    have agree: "\<And>x. x \<in> set ordered \<Longrightarrow> negative (c pivot x) = (k pivot < k x)"
      using "1.prems"(1) sub pin by blast
    have ip: "left \<le> start" "\<forall>x \<in> set (take left ordered). k x \<le> k pivot"
      "\<forall>x \<in> set (drop left ordered). k pivot < k x"
      using insertion_point [where k = k and c = c and pivot = pivot and ordered = ordered
          and start = start and work = work] agree "1.prems"(7) sl
      unfolding left_def ordered_def by simp_all
    have tl: "take left work = take left ordered"
      using ip(1) by (simp add: ordered_def min_def)
    have w': "work' = (take left ordered @ [pivot] @ drop left ordered) @ drop (start + 1) work"
      by (simp add: work'_def tl ordered_def)
    have len: "length (take left ordered @ [pivot] @ drop left ordered) = start + 1"
      using ip(1) sl by (simp add: ordered_def)
    have tk: "take (start + 1) work' = take left ordered @ [pivot] @ drop left ordered"
      unfolding w' using len by (metis append_eq_conv_conj)
    have dr: "drop (start + 1) work' = drop (start + 1) work"
      unfolding w' using len by (metis append_eq_conv_conj)
    have txs: "take (start + 1) xs = take start xs @ [pivot]"
      using sl by (simp add: take_Suc_conv_app_nth pivot)
    have 1: "start + 1 \<le> high" using True by simp
    have 2: "length work' = length xs"
      using sl ip(1) "1.prems"(4) by (simp add: work'_def)
    have 3: "drop (start + 1) work' = drop (start + 1) xs"
      unfolding dr using "1.prems"(5) by (metis add.commute drop_drop)
    have 4: "mset (take (start + 1) work') = mset (take (start + 1) xs)"
    proof -
      have "mset (take left ordered) + mset (drop left ordered) = mset ordered"
        by (metis append_take_drop_id mset_append)
      then have "mset (take left ordered @ [pivot] @ drop left ordered) = mset ordered + {#pivot#}"
        by simp
      then show ?thesis
        unfolding tk txs using "1.prems"(6) by (simp add: ordered_def)
    qed
    have 5: "sorted (map k (take (start + 1) work'))"
    proof -
      from "1.prems"(7) have "sorted (map k ordered)"
        by (simp only: ordered_def)
      then have "sorted (map k (take left ordered @ drop left ordered))"
        by (simp only: append_take_drop_id)
      then have "sorted (map k (take left ordered))" and "sorted (map k (drop left ordered))"
        and "\<forall>x \<in> set (take left ordered). \<forall>y \<in> set (drop left ordered). k x \<le> k y"
        unfolding map_append sorted_append by auto
      with ip(2,3) show ?thesis
        unfolding tk by (auto simp add: sorted_append less_imp_le)
    qed
    have 6: "\<And>v. filter (\<lambda>x. k x = v) (take (start + 1) work')
                    = filter (\<lambda>x. k x = v) (take (start + 1) xs)"
    proof -
      fix v
      have whole: "filter (\<lambda>x. k x = v) (take left ordered) @ filter (\<lambda>x. k x = v) (drop left ordered)
                     = filter (\<lambda>x. k x = v) (take start xs)"
        using "1.prems"(8) [of v] unfolding ordered_def [symmetric]
        by (metis append_take_drop_id filter_append)
      show "filter (\<lambda>x. k x = v) (take (start + 1) work')
              = filter (\<lambda>x. k x = v) (take (start + 1) xs)"
      proof (cases "k pivot = v")
        case True
        with ip(3) have "filter (\<lambda>x. k x = v) (drop left ordered) = []"
          by (auto simp add: filter_empty_conv)
        with whole True show ?thesis
          unfolding tk txs by simp
      next
        case False
        with whole show ?thesis
          unfolding tk txs by simp
      qed
    qed
    have "mset (binaryInsertionSort c work' (start + 1) high) = mset xs
          \<and> sorted (map k (binaryInsertionSort c work' (start + 1) high))
          \<and> (\<forall>v. filter (\<lambda>x. k x = v) (binaryInsertionSort c work' (start + 1) high)
                  = filter (\<lambda>x. k x = v) xs)"
      unfolding work'_def left_def pivot_def
      by (rule "1.IH" [OF True refl refl "1.prems"(1,2)])
         (use 1 2 3 4 5 6 in \<open>simp_all add: work'_def left_def pivot_def\<close>)
    moreover have "binaryInsertionSort c work start high
                     = binaryInsertionSort c work' (start + 1) high"
      using True by (simp add: binaryInsertionSort_step work'_def left_def pivot_def)
    ultimately show ?thesis by simp
  qed
qed

lemma runLength_ascending:
  fixes k :: "'a \<Rightarrow> 'b::linorder"
  assumes "\<And>a b. a \<in> set (prev # rest) \<Longrightarrow> b \<in> set (prev # rest) \<Longrightarrow>
             negative (c a b) = (k a < k b)"
  shows "sorted (map k (prev # take (runLength c False prev rest) rest))"
  using assms
proof (induction rest arbitrary: prev)
  case Nil
  then show ?case by simp
next
  case (Cons x rest)
  show ?case
  proof (cases "negative (c x prev)")
    case True
    then show ?thesis by (simp add: Let_def)
  next
    case False
    with Cons.prems [of x prev] have "k prev \<le> k x" by simp
    moreover have "sorted (map k (x # take (runLength c False x rest) rest))"
      by (rule Cons.IH) (use Cons.prems in auto)
    ultimately show ?thesis
      using False by (auto simp add: Let_def intro: order_trans)
  qed
qed

lemma runLength_descending:
  fixes k :: "'a \<Rightarrow> 'b::linorder"
  assumes "\<And>a b. a \<in> set (prev # rest) \<Longrightarrow> b \<in> set (prev # rest) \<Longrightarrow>
             negative (c a b) = (k a < k b)"
  shows "sorted_wrt (\<lambda>a b. k b < k a) (prev # take (runLength c True prev rest) rest)"
  using assms
proof (induction rest arbitrary: prev)
  case Nil
  then show ?case by simp
next
  case (Cons x rest)
  show ?case
  proof (cases "negative (c x prev)")
    case False
    then show ?thesis by (simp add: Let_def)
  next
    case True
    with Cons.prems [of x prev] have lt: "k x < k prev" by simp
    have ih: "sorted_wrt (\<lambda>a b. k b < k a) (x # take (runLength c True x rest) rest)"
      by (rule Cons.IH) (use Cons.prems in auto)
    then have "\<forall>y \<in> set (take (runLength c True x rest) rest). k y < k prev"
      using lt by auto
    with ih lt show ?thesis
      using True by (simp add: Let_def)
  qed
qed

lemma descending_filter_rev:
  fixes k :: "'a \<Rightarrow> 'b::linorder"
  assumes "sorted_wrt (\<lambda>a b. k b < k a) xs"
  shows "filter (\<lambda>x. k x = v) (rev xs) = filter (\<lambda>x. k x = v) xs"
  using assms
proof (induction xs)
  case Nil
  then show ?case by simp
next
  case (Cons x xs)
  show ?case
  proof (cases "k x = v")
    case True
    with Cons.prems have "filter (\<lambda>x. k x = v) xs = []"
      by (auto simp add: filter_empty_conv)
    with Cons True show ?thesis by simp
  next
    case False
    with Cons show ?thesis by simp
  qed
qed

lemma descending_rev_sorted:
  fixes k :: "'a \<Rightarrow> 'b::linorder"
  assumes "sorted_wrt (\<lambda>a b. k b < k a) xs"
  shows "sorted (map k (rev xs))"
proof -
  from assms have "sorted_wrt (\<lambda>a b. k b \<le> k a) xs"
    by (rule sorted_wrt_mono_rel [rotated]) simp
  then show ?thesis
    by (simp add: sorted_map sorted_wrt_rev)
qed

lemma countAndMakeRun_run:
  fixes k :: "'a \<Rightarrow> 'b::linorder"
  assumes agree: "\<And>a b. a \<in> set xs \<Longrightarrow> b \<in> set xs \<Longrightarrow> negative (c a b) = (k a < k b)"
    and run: "countAndMakeRun c xs = (n, work)"
  shows "n \<le> length xs \<and> length work = length xs \<and> drop n work = drop n xs
       \<and> mset (take n work) = mset (take n xs)
       \<and> sorted (map k (take n work))
       \<and> (\<forall>v. filter (\<lambda>x. k x = v) (take n work) = filter (\<lambda>x. k x = v) (take n xs))"
proof (cases xs)
  case Nil
  with run show ?thesis by (simp add: countAndMakeRun_def)
next
  case (Cons x0 tail)
  show ?thesis
  proof (cases tail)
    case Nil
    with Cons run show ?thesis by (auto simp add: countAndMakeRun_def)
  next
    case tail: (Cons x1 rest)
    define desc where "desc = negative (c x1 x0)"
    define m where "m = runLength c desc x1 rest"
    have xs: "xs = x0 # x1 # rest" by (simp add: Cons tail)
    have n: "n = 2 + m"
      and w: "work = (if desc then rev (take n xs) @ drop n xs else xs)"
      using run by (auto simp add: xs countAndMakeRun_def Let_def desc_def m_def)
    have ml: "m \<le> length rest"
      unfolding m_def by (rule runLength_le)
    then have nl: "n \<le> length xs"
      by (simp add: n xs)
    have tn: "take n xs = x0 # x1 # take m rest"
      by (simp add: n xs)
    have a1: "\<And>a b. a \<in> set (x1 # rest) \<Longrightarrow> b \<in> set (x1 # rest) \<Longrightarrow>
                negative (c a b) = (k a < k b)"
      using agree by (simp add: xs)
    have d: "desc = (k x1 < k x0)"
      unfolding desc_def using agree [of x1 x0] by (simp add: xs)
    show ?thesis
    proof (cases desc)
      case False
      have "sorted (map k (x1 # take (runLength c False x1 rest) rest))"
        using a1 by (rule runLength_ascending)
      moreover from False d have "k x0 \<le> k x1"
        by simp
      ultimately have "sorted (map k (take n xs))"
        using False by (auto simp add: tn m_def intro: order_trans)
      with False nl show ?thesis by (simp add: w)
    next
      case True
      have "sorted_wrt (\<lambda>a b. k b < k a) (x1 # take (runLength c True x1 rest) rest)"
        using a1 by (rule runLength_descending)
      with True d have run: "sorted_wrt (\<lambda>a b. k b < k a) (take n xs)"
        by (auto simp add: tn m_def)
      have len: "length (rev (take n xs)) = n"
        using nl by simp
      from True have w': "work = rev (take n xs) @ drop n xs"
        by (simp add: w)
      have t: "take n work = rev (take n xs)"
        unfolding w' using len by (metis append_eq_conv_conj)
      have dr: "drop n work = drop n xs"
        unfolding w' using len by (metis append_eq_conv_conj)
      have lw: "length work = length xs"
        unfolding w' by simp
      show ?thesis
        using nl lw dr descending_rev_sorted [OF run] descending_filter_rev [OF run]
        by (simp add: t)
    qed
  qed
qed

lemma engineSort_sort_key:
  fixes k :: "'a \<Rightarrow> 'b::linorder"
  assumes agree: "\<And>a b. a \<in> set xs \<Longrightarrow> b \<in> set xs \<Longrightarrow> negative (c a b) = (k a < k b)"
    and short: "length xs < 64"
  shows "engineSort c xs = Some (sort_key k xs)"
proof (cases "length xs < 2")
  case True
  then have "xs = [] \<or> (\<exists>x. xs = [x])"
    by (cases xs) (auto simp add: length_Suc_conv)
  then have "sort_key k xs = xs" by auto
  with True show ?thesis by (simp add: engineSort_def)
next
  case False
  obtain n work where run: "countAndMakeRun c xs = (n, work)"
    by (cases "countAndMakeRun c xs")
  let ?ys = "binaryInsertionSort c work n (length xs)"
  note r = countAndMakeRun_run [where k = k, OF agree run]
  have s: "mset ?ys = mset xs \<and> sorted (map k ?ys)
           \<and> (\<forall>v. filter (\<lambda>x. k x = v) ?ys = filter (\<lambda>x. k x = v) xs)"
    by (rule binaryInsertionSort_sorts [where k = k and xs = xs]) (use agree r in simp_all)
  have "sort_key k xs = ?ys"
  proof (rule properties_for_sort_key)
    show "mset ?ys = mset xs" using s by simp
    show "sorted (map k ?ys)" using s by simp
    show "\<And>x. x \<in> set ?ys \<Longrightarrow>
            filter (\<lambda>y. k x = k y) ?ys = filter (\<lambda>y. k x = k y) xs"
    proof -
      fix x
      have "(\<lambda>y. k x = k y) = (\<lambda>y. k y = k x)" by auto
      with s show "filter (\<lambda>y. k x = k y) ?ys = filter (\<lambda>y. k x = k y) xs"
        by simp
    qed
  qed
  with False short show ?thesis
    by (simp add: engineSort_def run)
qed

lemma negative_bySimilarity_Num:
  assumes "similarity a = Num x" and "similarity b = Num y"
  shows "negative (bySimilarity a b) = (- numberOf (similarity a) < - numberOf (similarity b))"
  using assms by (auto simp add: bySimilarity_def)

lemma engineSort_numeric:
  assumes "\<And>y. y \<in> set xs \<Longrightarrow> \<exists>r. similarity y = Num r" and "length xs < 64"
  shows "engineSort bySimilarity xs = Some (sortBy bySimilarity xs)"
proof -
  have "engineSort bySimilarity xs = Some (sort_key (\<lambda>z. - numberOf (similarity z)) xs)"
  proof (rule engineSort_sort_key [OF _ assms(2)])
    fix a b assume "a \<in> set xs" and "b \<in> set xs"
    with assms(1) obtain x y where "similarity a = Num x" and "similarity b = Num y"
      by blast
    then show "negative (bySimilarity a b)
                 = (- numberOf (similarity a) < - numberOf (similarity b))"
      by (rule negative_bySimilarity_Num)
  qed
  with sortBy_sort_key [OF assms(1)] show ?thesis by simp
qed

lemma insertBy_insort:
  fixes k :: "'a \<Rightarrow> 'b::linorder"
  assumes "\<And>y. y \<in> set ys \<Longrightarrow> positive (c x y) = (k y < k x)"
  shows "insertBy c x ys = insort_key k x ys"
  using assms by (induction ys) (auto simp add: not_less)

lemma sortBy_sort:
  fixes k :: "'a \<Rightarrow> 'b::linorder"
  assumes "\<And>a b. a \<in> set xs \<Longrightarrow> b \<in> set xs \<Longrightarrow> positive (c a b) = (k b < k a)"
  shows "sortBy c xs = sort_key k xs"
  using assms
proof (induction xs)
  case Nil
  then show ?case by (simp add: sortBy_def)
next
  case (Cons x xs)
  have ih: "sortBy c xs = sort_key k xs"
    using Cons by simp
  have "insertBy c x (sortBy c xs) = insort_key k x (sortBy c xs)"
    using Cons.prems by (intro insertBy_insort) (auto simp add: set_sortBy)
  then show ?case
    by (simp add: sortBy_def ih [unfolded sortBy_def])
qed

lemma arraySort_sort_key:
  fixes k :: "'a \<Rightarrow> 'b::linorder"
  assumes neg: "\<And>a b. a \<in> set xs \<Longrightarrow> b \<in> set xs \<Longrightarrow> negative (c a b) = (k a < k b)"
    and pos: "\<And>a b. a \<in> set xs \<Longrightarrow> b \<in> set xs \<Longrightarrow> positive (c a b) = (k b < k a)"
  shows "arraySort c xs = sort_key k xs"
proof (cases "length xs < 64")
  case True
  with neg show ?thesis
    by (simp add: arraySort_def engineSort_sort_key [where k = k])
next
  case False
  then have "engineSort c xs = None"
    by (simp add: engineSort_def)
  with pos show ?thesis
    by (simp add: arraySort_def sortBy_sort [where k = k])
qed

lemma arraySort_byCount: "arraySort byCount xs = sortBy byCount xs"
proof -
  have "arraySort byCount xs = sort_key (\<lambda>e. - real (snd e)) xs"
    by (rule arraySort_sort_key) (simp_all add: byCount_def)
  moreover have "sortBy byCount xs = sort_key (\<lambda>e. - real (snd e)) xs"
    by (rule sortBy_sort) (simp add: byCount_def)
  ultimately show ?thesis by simp
qed

lemma arraySort_numeric:
  assumes "\<And>y. y \<in> set xs \<Longrightarrow> \<exists>r. similarity y = Num r"
  shows "arraySort bySimilarity xs = sort_key (\<lambda>z. - numberOf (similarity z)) xs"
proof (rule arraySort_sort_key)
  fix a b assume "a \<in> set xs" and "b \<in> set xs"
  with assms obtain x y where s: "similarity a = Num x" "similarity b = Num y"
    by blast
  then show "negative (bySimilarity a b) = (- numberOf (similarity a) < - numberOf (similarity b))"
    by (rule negative_bySimilarity_Num)
  from s show "positive (bySimilarity a b) = (- numberOf (similarity b) < - numberOf (similarity a))"
    by (simp add: bySimilarity_def)
qed

text \<open>
  So the ranking of the code is the stable ranking by descending score wherever every
  score is a number: records of one score keep the order they have in the index.
\<close>

lemma rankLogs_numeric:
  assumes "\<forall>e \<in> set index. \<exists>r. cosineSimilarity v (embedding e) = Num r"
  shows "rankLogs v index topK
           = map scoredLog (slice0 (sortBy bySimilarity (similarities v index)) topK)"
proof -
  have n: "\<And>y. y \<in> set (similarities v index) \<Longrightarrow> \<exists>r. similarity y = Num r"
    using assms by (auto simp add: similarities_def)
  from arraySort_numeric [OF n] sortBy_sort_key [OF n] show ?thesis
    by (simp add: rankLogs_def)
qed

lemma ranking_stable_numeric:
  assumes "\<And>y. y \<in> set xs \<Longrightarrow> \<exists>r. similarity y = Num r"
  shows "filter (\<lambda>x. similarity x = s) (arraySort bySimilarity xs)
           = filter (\<lambda>x. similarity x = s) xs"
    and "sorted_wrt (\<lambda>a b. \<not> positive (bySimilarity a b)) (arraySort bySimilarity xs)"
proof -
  from arraySort_numeric [OF assms] sortBy_sort_key [OF assms]
  have "arraySort bySimilarity xs = sortBy bySimilarity xs"
    by simp
  with sortBy_stable [of s xs] descending_sortBy [OF assms]
  show "filter (\<lambda>x. similarity x = s) (arraySort bySimilarity xs)
           = filter (\<lambda>x. similarity x = s) xs"
    and "sorted_wrt (\<lambda>a b. \<not> positive (bySimilarity a b)) (arraySort bySimilarity xs)"
    by simp_all
qed

text \<open>
  An array of two elements is one run: the engine swaps the two exactly where the second
  compares below the first.
\<close>

lemma arraySort_pair:
  "arraySort c [x, y] = (if negative (c y x) then [y, x] else [x, y])"
  by (simp add: arraySort_def engineSort_def countAndMakeRun_def Let_def
      binaryInsertionSort_done)

text \<open>
  The index of seven records, step by step: the run at the start is records 0 and 1,
  descending, and is reversed; records 2 and 3 are inserted behind record 1; record 4,
  whose score is \<open>NaN\<close>, compares equal to everything and stays; so does record 5, whose
  search ends at record 4; the search for record 6 starts at record 0, below which it does
  not compare, and ends in front of it.
\<close>

lemma cosine_examples:
  "cosineSimilarity [1, 0] [1, 0] = Num 1"
  "cosineSimilarity [1, 0] [0, 1] = Num 0"
  "cosineSimilarity [1, 0] [0, 0] = NaN"
  by (simp_all add: cosineSimilarity_def dotProduct_def magnitude_def Let_def)

lemma similarities_tiedIndex:
  "similarities [1, 0] tiedIndex =
     [\<lparr> scoredLog = numberedLog 0, similarity = Num 0 \<rparr>,
      \<lparr> scoredLog = numberedLog 1, similarity = Num 1 \<rparr>,
      \<lparr> scoredLog = numberedLog 2, similarity = Num 1 \<rparr>,
      \<lparr> scoredLog = numberedLog 3, similarity = Num 1 \<rparr>,
      \<lparr> scoredLog = numberedLog 4, similarity = NaN \<rparr>,
      \<lparr> scoredLog = numberedLog 5, similarity = Num 1 \<rparr>,
      \<lparr> scoredLog = numberedLog 6, similarity = Num 1 \<rparr>]"
  by (simp add: similarities_def tiedIndex_def numberedEntry_def cosine_examples)

lemma arraySort_tiedIndex:
  "arraySort bySimilarity (similarities [1, 0] tiedIndex) =
     [\<lparr> scoredLog = numberedLog 1, similarity = Num 1 \<rparr>,
      \<lparr> scoredLog = numberedLog 2, similarity = Num 1 \<rparr>,
      \<lparr> scoredLog = numberedLog 3, similarity = Num 1 \<rparr>,
      \<lparr> scoredLog = numberedLog 6, similarity = Num 1 \<rparr>,
      \<lparr> scoredLog = numberedLog 0, similarity = Num 0 \<rparr>,
      \<lparr> scoredLog = numberedLog 4, similarity = NaN \<rparr>,
      \<lparr> scoredLog = numberedLog 5, similarity = Num 1 \<rparr>]"
proof -
  let ?r = "\<lambda>n s. \<lparr> scoredLog = numberedLog n, similarity = s \<rparr>"
  note fip = bySimilarity_def findInsertionPoint_step findInsertionPoint_done
  have run: "countAndMakeRun bySimilarity (similarities [1, 0] tiedIndex) =
               (2, [?r 1 (Num 1), ?r 0 (Num 0), ?r 2 (Num 1), ?r 3 (Num 1), ?r 4 NaN,
                    ?r 5 (Num 1), ?r 6 (Num 1)])"
    by (simp add: similarities_tiedIndex countAndMakeRun_def Let_def bySimilarity_def)
  have "binaryInsertionSort bySimilarity
          [?r 1 (Num 1), ?r 0 (Num 0), ?r 2 (Num 1), ?r 3 (Num 1), ?r 4 NaN, ?r 5 (Num 1),
           ?r 6 (Num 1)] 2 7
        = binaryInsertionSort bySimilarity
          [?r 1 (Num 1), ?r 2 (Num 1), ?r 0 (Num 0), ?r 3 (Num 1), ?r 4 NaN, ?r 5 (Num 1),
           ?r 6 (Num 1)] 3 7"
    by (subst binaryInsertionSort_step) (simp_all add: fip)
  also have "\<dots> = binaryInsertionSort bySimilarity
          [?r 1 (Num 1), ?r 2 (Num 1), ?r 3 (Num 1), ?r 0 (Num 0), ?r 4 NaN, ?r 5 (Num 1),
           ?r 6 (Num 1)] 4 7"
    by (subst binaryInsertionSort_step) (simp_all add: fip)
  also have "\<dots> = binaryInsertionSort bySimilarity
          [?r 1 (Num 1), ?r 2 (Num 1), ?r 3 (Num 1), ?r 0 (Num 0), ?r 4 NaN, ?r 5 (Num 1),
           ?r 6 (Num 1)] 5 7"
    by (subst binaryInsertionSort_step) (simp_all add: fip)
  also have "\<dots> = binaryInsertionSort bySimilarity
          [?r 1 (Num 1), ?r 2 (Num 1), ?r 3 (Num 1), ?r 0 (Num 0), ?r 4 NaN, ?r 5 (Num 1),
           ?r 6 (Num 1)] 6 7"
    by (subst binaryInsertionSort_step) (simp_all add: fip)
  also have "\<dots> = binaryInsertionSort bySimilarity
          [?r 1 (Num 1), ?r 2 (Num 1), ?r 3 (Num 1), ?r 6 (Num 1), ?r 0 (Num 0), ?r 4 NaN,
           ?r 5 (Num 1)] 7 7"
    by (subst binaryInsertionSort_step) (simp_all add: fip)
  also have "\<dots> = [?r 1 (Num 1), ?r 2 (Num 1), ?r 3 (Num 1), ?r 6 (Num 1), ?r 0 (Num 0),
                      ?r 4 NaN, ?r 5 (Num 1)]"
    by (simp add: binaryInsertionSort_done)
  finally have sorted: "binaryInsertionSort bySimilarity
          [?r 1 (Num 1), ?r 0 (Num 0), ?r 2 (Num 1), ?r 3 (Num 1), ?r 4 NaN, ?r 5 (Num 1),
           ?r 6 (Num 1)] 2 7
        = [?r 1 (Num 1), ?r 2 (Num 1), ?r 3 (Num 1), ?r 6 (Num 1), ?r 0 (Num 0),
           ?r 4 NaN, ?r 5 (Num 1)]" .
  have len: "length (similarities [1, 0] tiedIndex) = 7"
    by (simp add: similarities_tiedIndex)
  show ?thesis
    unfolding arraySort_def engineSort_def run len using sorted by simp
qed

lemma slice0_nat: "slice0 xs (int k) = take k xs"
  by (simp add: slice0_def)

lemma mset_take_subseteq: "mset (take n xs) \<subseteq># mset xs"
proof -
  have "mset xs = mset (take n xs) + mset (drop n xs)"
    by (metis append_take_drop_id mset_append)
  then show ?thesis by simp
qed

lemma length_rankLogs: "length (rankLogs v index (int k)) = min k (length index)"
  by (simp add: rankLogs_def slice0_nat length_arraySort similarities_def)

lemma mset_rankLogs: "mset (rankLogs v index topK) \<subseteq># mset (map logRec index)"
proof -
  let ?S = "arraySort bySimilarity (similarities v index)"
  have "mset (slice0 ?S topK) \<subseteq># mset ?S"
    unfolding slice0_def by (simp add: mset_take_subseteq)
  then have "image_mset scoredLog (mset (slice0 ?S topK)) \<subseteq># image_mset scoredLog (mset ?S)"
    by (rule image_mset_subseteq_mono)
  moreover have "image_mset scoredLog (mset ?S) = mset (map logRec index)"
    by (simp add: mset_arraySort similarities_def comp_def flip: mset_map)
  ultimately show ?thesis
    by (simp add: rankLogs_def flip: mset_map)
qed

lemma findRelevantLogs_Inr:
  "embedFn env (length (embedCalls w)) question = Inr v \<Longrightarrow>
   findRelevantLogs env st w question topK =
     (Inr (rankLogs v (embeddedLogs st) topK), w\<lparr> embedCalls := embedCalls w @ [question] \<rparr>)"
  by (simp add: findRelevantLogs_def createEmbedding_def)

lemma findRelevantLogs_Inl:
  "embedFn env (length (embedCalls w)) question = Inl e \<Longrightarrow>
   findRelevantLogs env st w question topK =
     (Inl e, w\<lparr> embedCalls := embedCalls w @ [question] \<rparr>)"
  by (simp add: findRelevantLogs_def createEmbedding_def)

lemma numeric_sampleIndex:
  "\<forall>e \<in> set sampleIndex. \<exists>r. cosineSimilarity [1, 0] (embedding e) = Num r"
  by (simp add: sampleIndex_def cosineSimilarity_def dotProduct_def magnitude_def Let_def)

lemma rankLogs_sampleIndex:
  "rankLogs [1, 0] sampleIndex 8 = [timeoutLog1, authFailedLog, timeoutLog2]"
  unfolding rankLogs_numeric [OF numeric_sampleIndex]
  by (simp add: similarities_def sortBy_def cosineSimilarity_def dotProduct_def magnitude_def
      bySimilarity_def slice0_def sampleIndex_def)

text \<open>
  Against a vector of zero magnitude (over the reals: all components zero), whichever of
  the two it is, the score is \<open>NaN\<close>.
\<close>

lemma foldl_products_zero:
  "\<forall>x \<in> set b. x = (0::real) \<Longrightarrow> foldl (\<lambda>sum (val, bi). sum + val * bi) s (zip a b) = s"
proof (induction b arbitrary: a s)
  case Nil
  then show ?case by simp
next
  case (Cons x b)
  then show ?case by (cases a) simp_all
qed

lemma foldl_products_zero_left:
  "\<forall>x \<in> set a. x = (0::real) \<Longrightarrow> foldl (\<lambda>sum (val, bi). sum + val * bi) s (zip a b) = s"
proof (induction a arbitrary: b s)
  case Nil
  then show ?case by simp
next
  case (Cons x a)
  then show ?case by (cases b) simp_all
qed

lemma foldl_squares_zero:
  "\<forall>x \<in> set b. x = (0::real) \<Longrightarrow> foldl (\<lambda>sum val. sum + val * val) s b = s"
  by (induction b arbitrary: s) simp_all

lemma magnitude_zero_vector: "\<forall>x \<in> set b. x = 0 \<Longrightarrow> magnitude b = 0"
  by (simp add: magnitude_def foldl_squares_zero)

lemma cosineSimilarity_zero_vector:
  assumes "(\<forall>x \<in> set a. x = 0) \<or> (\<forall>x \<in> set b. x = 0)"
  shows "cosineSimilarity a b = NaN"
proof -
  have d: "dotProduct a b = NaN \<or> dotProduct a b = Num 0"
    using assms
    by (auto simp add: dotProduct_def foldl_products_zero foldl_products_zero_left)
  have m: "magnitude a * magnitude b = 0"
    using assms by (auto simp add: magnitude_zero_vector)
  from d show ?thesis
    by (auto simp add: cosineSimilarity_def Let_def m)
qed

text \<open>
  Claim C1, evaluated on the code. The claim asks for an explicit guard of the
  zero-magnitude case and for such a candidate to be ranked lowest. \<open>cosineSimilarity\<close>
  has no guard: against a zero vector the score is \<open>0 / 0\<close>, which is \<open>NaN\<close>
  (\<open>cosineSimilarity_zero_vector\<close>). The comparator then returns \<open>NaN\<close>, which the
  sort reads as "equal", and the zero-vector record stays where it was in the index:
  here first, ahead of a record whose score is 1.
\<close>

theorem cosineSimilarity_zero_magnitude_unguarded:
  "cosineSimilarity [1, 0] [0, 0] = NaN
   \<and> cosineSimilarity [1, 0] [1, 0] = Num 1
   \<and> rankLogs [1, 0] zeroIndex 8 = [timeoutLog1, authFailedLog]
   \<and> map embedding zeroIndex = [[0, 0], [1, 0]]"
  by (simp add: rankLogs_def similarities_def arraySort_pair cosineSimilarity_def dotProduct_def
      magnitude_def bySimilarity_def slice0_def zeroIndex_def)

text \<open>
  Claim C7, evaluated on the code. The ranking is a function of the query vector, the
  index and \<open>topK\<close> (\<open>findRelevantLogs\<close> assigns to no field), so two calls return the same
  list; and where every score is a number, records of one score keep the order they have
  in the index (\<open>ranking_stable_numeric\<close>). The claim asks for that order also where a
  score is undefined, and there the code fails. The score against a vector of zero
  magnitude is \<open>NaN\<close> (\<open>cosineSimilarity_zero_vector\<close>), the comparator returns \<open>NaN\<close> for
  every comparison with it, and the binary insertion of the engine then puts a later
  record in front of an earlier one of the same score. In the index below record 4 has
  the zero vector; records 5 and 6 both score 1, and record 6 is returned before record 5.
\<close>

theorem equal_scores_lose_insertion_order:
  "map embedding tiedIndex = [[0, 1], [1, 0], [1, 0], [1, 0], [0, 0], [1, 0], [1, 0]]
   \<and> map logRec tiedIndex = map numberedLog [0, 1, 2, 3, 4, 5, 6]
   \<and> map similarity (similarities [1, 0] tiedIndex)
       = [Num 0, Num 1, Num 1, Num 1, NaN, Num 1, Num 1]
   \<and> rankLogs [1, 0] tiedIndex 8 = map numberedLog [1, 2, 3, 6, 0, 4, 5]
   \<and> fst (findRelevantLogs sampleEnv (newRAGSystem\<lparr> embeddedLogs := tiedIndex \<rparr>) sampleWorld
           timeoutQuestion 8)
       = Inr (map numberedLog [1, 2, 3, 6, 0, 4, 5])
   \<and> numberedLog 5 \<noteq> numberedLog 6"
proof -
  have e: "embedFn sampleEnv (length (embedCalls sampleWorld)) timeoutQuestion = Inr [1, 0]"
    by (simp add: sampleEnv_def)
  have r: "rankLogs [1, 0] tiedIndex 8 = map numberedLog [1, 2, 3, 6, 0, 4, 5]"
    by (simp add: rankLogs_def arraySort_tiedIndex slice0_def)
  have d: "numberedLog 5 \<noteq> numberedLog 6"
    by (simp add: numberedLog_def timeoutLog1_def)
  have i: "map embedding tiedIndex = [[0, 1], [1, 0], [1, 0], [1, 0], [0, 0], [1, 0], [1, 0]]"
    "map logRec tiedIndex = map numberedLog [0, 1, 2, 3, 4, 5, 6]"
    by (simp_all add: tiedIndex_def numberedEntry_def)
  have s: "map similarity (similarities [1, 0] tiedIndex)
             = [Num 0, Num 1, Num 1, Num 1, NaN, Num 1, Num 1]"
    by (simp add: similarities_tiedIndex)
  from i s r d show ?thesis
    by (simp add: findRelevantLogs_Inr [OF e])
qed

text \<open>
  Claim C8. For every query vector, index and count \<open>topK\<close>, the ranker returns a list of
  exactly \<open>min(topK, number of indexed records)\<close> logs, each the log of an indexed record
  (the vectors are dropped); \<open>findRelevantLogs\<close> returns that list once the question is
  embedded.
\<close>

theorem ranking_length_topK:
  "length (rankLogs v index (int k)) = min k (length index)
   \<and> mset (rankLogs v index (int k)) \<subseteq># mset (map logRec index)
   \<and> (embedFn env (length (embedCalls w)) question = Inr v
      \<longrightarrow> fst (findRelevantLogs env st w question (int k))
          = Inr (rankLogs v (embeddedLogs st) (int k)))"
  using mset_rankLogs [of v index "int k"]
  by (simp add: length_rankLogs findRelevantLogs_Inr)

theorem ranking_length_topK_witness:
  "embedFn sampleEnv (length (embedCalls sampleWorld)) (ascii ''timeouts'') = Inr [1, 0]
   \<and> fst (findRelevantLogs sampleEnv (newRAGSystem\<lparr> embeddedLogs := sampleIndex \<rparr>) sampleWorld
           (ascii ''timeouts'') (int 2))
     = Inr [timeoutLog1, authFailedLog]
   \<and> length (rankLogs [1, 0] sampleIndex (int 2)) = min 2 (length sampleIndex)
   \<and> length (rankLogs [1, 0] sampleIndex (int 8)) = 3"
proof -
  have a: "embedFn sampleEnv (length (embedCalls sampleWorld)) (ascii ''timeouts'') = Inr [1, 0]"
    by (simp add: sampleEnv_def)
  have r: "rankLogs [1, 0] sampleIndex (int 2) = [timeoutLog1, authFailedLog]"
    unfolding rankLogs_numeric [OF numeric_sampleIndex]
    by (simp add: similarities_def sortBy_def cosineSimilarity_def dotProduct_def magnitude_def
        bySimilarity_def slice0_def sampleIndex_def)
  have l: "length sampleIndex = 3" by (simp add: sampleIndex_def)
  from ranking_length_topK
         [of "[1, 0]" sampleIndex 2 sampleEnv sampleWorld "ascii ''timeouts''"
             "newRAGSystem\<lparr> embeddedLogs := sampleIndex \<rparr>"]
       ranking_length_topK [of "[1, 0]" sampleIndex 8] a r l
  show ?thesis by simp
qed

section \<open>Properties of indexing and of the cache\<close>

lemma createEmbedding_world:
  "createEmbedding env w prompt = (r, w') \<Longrightarrow>
   w' = w\<lparr> embedCalls := embedCalls w @ [prompt] \<rparr> \<and> r = embedFn env (length (embedCalls w)) prompt"
  by (auto simp add: createEmbedding_def)

lemma indexLoop_Cons:
  "indexLoop env (l # logs) st w =
     (case embedFn env (length (embedCalls w)) (logToText env l) of
        Inl e \<Rightarrow> (Inl e, st, w\<lparr> embedCalls := embedCalls w @ [logToText env l] \<rparr>)
      | Inr v \<Rightarrow>
          indexLoop env logs
            (st\<lparr> embeddedLogs :=
                   embeddedLogs st @ [\<lparr> logRec = l, embedding = v, logText = logToText env l \<rparr>] \<rparr>)
            (w\<lparr> embedCalls := embedCalls w @ [logToText env l] \<rparr>))"
  by (simp add: createEmbedding_def Let_def)

declare indexLoop.simps(2) [simp del]

lemma indexLoop_frame:
  "indexLoop env logs st w = (r, st', w') \<Longrightarrow>
   files w' = files w \<and> cacheFiles w' = cacheFiles w \<and> cacheWritable w' = cacheWritable w \<and>
   now w' = now w \<and> chatCalls w' = chatCalls w \<and>
   allLogs st' = allLogs st \<and> personalization st' = personalization st"
proof (induction logs arbitrary: st w)
  case Nil
  then show ?case by simp
next
  case (Cons l logs)
  show ?case
  proof (cases "embedFn env (length (embedCalls w)) (logToText env l)")
    case (Inl e)
    with Cons.prems show ?thesis by (auto simp add: indexLoop_Cons)
  next
    case (Inr v)
    with Cons.prems have
      "indexLoop env logs
         (st\<lparr> embeddedLogs := embeddedLogs st @ [\<lparr> logRec = l, embedding = v, logText = logToText env l \<rparr>] \<rparr>)
         (w\<lparr> embedCalls := embedCalls w @ [logToText env l] \<rparr>) = (r, st', w')"
      by (simp add: indexLoop_Cons)
    from Cons.IH [OF this] show ?thesis by simp
  qed
qed

lemma indexLoop_calls:
  "indexLoop env logs st w = (r, st', w') \<Longrightarrow>
   length (embedCalls w) \<le> length (embedCalls w') \<and>
   take (length (embedCalls w)) (embedCalls w') = embedCalls w \<and>
   (\<forall>i e. length (embedCalls w) \<le> i \<and> i < length (embedCalls w') \<and>
      embedFn env i (embedCalls w' ! i) = Inl e \<longrightarrow> r = Inl e)"
proof (induction logs arbitrary: st w)
  case Nil
  then show ?case by auto
next
  case (Cons l logs)
  let ?t = "logToText env l"
  let ?n = "length (embedCalls w)"
  show ?case
  proof (cases "embedFn env ?n ?t")
    case (Inl e)
    with Cons.prems have r: "r = Inl e" and w': "w' = w\<lparr> embedCalls := embedCalls w @ [?t] \<rparr>"
      by (auto simp add: indexLoop_Cons)
    show ?thesis
    proof (intro conjI allI impI)
      fix i e'
      assume "?n \<le> i \<and> i < length (embedCalls w') \<and> embedFn env i (embedCalls w' ! i) = Inl e'"
      then have "i = ?n" and "embedFn env i (embedCalls w' ! i) = Inl e'"
        by (simp_all add: w')
      then show "r = Inl e'" using Inl by (simp add: w' r)
    qed (simp_all add: w')
  next
    case (Inr v)
    let ?w1 = "w\<lparr> embedCalls := embedCalls w @ [?t] \<rparr>"
    from Inr Cons.prems have
      "indexLoop env logs
         (st\<lparr> embeddedLogs := embeddedLogs st @ [\<lparr> logRec = l, embedding = v, logText = ?t \<rparr>] \<rparr>)
         ?w1 = (r, st', w')"
      by (simp add: indexLoop_Cons)
    from Cons.IH [OF this]
    have len: "Suc ?n \<le> length (embedCalls w')"
      and pre: "take (Suc ?n) (embedCalls w') = embedCalls w @ [?t]"
      and fail: "\<And>i e. Suc ?n \<le> i \<Longrightarrow> i < length (embedCalls w') \<Longrightarrow>
                   embedFn env i (embedCalls w' ! i) = Inl e \<Longrightarrow> r = Inl e"
      by auto
    have "take ?n (take (Suc ?n) (embedCalls w')) = take ?n (embedCalls w')"
      by simp
    with pre have pre': "take ?n (embedCalls w') = embedCalls w"
      by simp
    from pre len have nth: "embedCalls w' ! ?n = ?t"
      by (metis lessI nth_append_length nth_take)
    show ?thesis
    proof (intro conjI allI impI)
      fix i e
      assume a: "?n \<le> i \<and> i < length (embedCalls w') \<and> embedFn env i (embedCalls w' ! i) = Inl e"
      show "r = Inl e"
      proof (cases "i = ?n")
        case True
        with a nth Inr show ?thesis by simp
      next
        case False
        with a have "Suc ?n \<le> i" by simp
        with a show ?thesis using fail by blast
      qed
    qed (use len pre' in simp_all)
  qed
qed

lemma indexLoop_success:
  "indexLoop env logs st w = (Inr (), st', w') \<Longrightarrow>
   embedCalls w' = embedCalls w @ map (logToText env) logs \<and>
   (\<exists>new. embeddedLogs st' = embeddedLogs st @ new \<and> map logRec new = logs \<and>
      map logText new = map (logToText env) logs \<and>
      (\<forall>i < length logs.
         embedFn env (length (embedCalls w) + i) (logToText env (logs ! i)) = Inr (embedding (new ! i))))"
proof (induction logs arbitrary: st w)
  case Nil
  then show ?case by simp
next
  case (Cons l logs)
  let ?t = "logToText env l"
  let ?n = "length (embedCalls w)"
  show ?case
  proof (cases "embedFn env ?n ?t")
    case (Inl e)
    with Cons.prems show ?thesis by (auto simp add: indexLoop_Cons)
  next
    case (Inr v)
    let ?w1 = "w\<lparr> embedCalls := embedCalls w @ [?t] \<rparr>"
    let ?e = "\<lparr> logRec = l, embedding = v, logText = ?t \<rparr>"
    let ?st1 = "st\<lparr> embeddedLogs := embeddedLogs st @ [?e] \<rparr>"
    from Inr Cons.prems have "indexLoop env logs ?st1 ?w1 = (Inr (), st', w')"
      by (simp add: indexLoop_Cons)
    from Cons.IH [OF this] obtain new where
      c: "embedCalls w' = embedCalls w @ ?t # map (logToText env) logs"
      and n: "embeddedLogs st' = embeddedLogs st @ ?e # new" "map logRec new = logs"
         "map logText new = map (logToText env) logs"
      and v: "\<And>i. i < length logs \<Longrightarrow>
                embedFn env (Suc ?n + i) (logToText env (logs ! i)) = Inr (embedding (new ! i))"
      by auto
    have "\<forall>i < length (l # logs).
            embedFn env (?n + i) (logToText env ((l # logs) ! i)) = Inr (embedding ((?e # new) ! i))"
    proof (intro allI impI)
      fix i assume "i < length (l # logs)"
      then show "embedFn env (?n + i) (logToText env ((l # logs) ! i)) = Inr (embedding ((?e # new) ! i))"
        using Inr v by (cases i) simp_all
    qed
    with c n show ?thesis
      by (intro conjI exI [of _ "?e # new"]) simp_all
  qed
qed

lemma loadAndIndexLogs_hit:
  assumes "files w filePath = Inr content" and "jsonParseLogs env content = Inr logs"
    and "loadCache env w filePath = Some c" and "fileHash c = md5hex env content"
  shows "loadAndIndexLogs env st w filePath =
           (Inr (), st\<lparr> allLogs := logs, embeddedLogs := cachedLogs c \<rparr>, w)"
  using assms by (simp add: loadAndIndexLogs_def getFileHash_def validCache_def)

lemma loadAndIndexLogs_miss:
  assumes "files w filePath = Inr content" and "jsonParseLogs env content = Inr logs"
    and "\<not> (\<exists>c. loadCache env w filePath = Some c \<and> fileHash c = md5hex env content)"
  shows "loadAndIndexLogs env st w filePath =
           (case indexLoop env logs (st\<lparr> allLogs := logs \<rparr>) w of
              (Inl e, st2, w2) \<Rightarrow> (Inl e, st2, w2)
            | (Inr u, st2, w2) \<Rightarrow>
                (Inr (), st2, saveCache env st2 w2 filePath (md5hex env content)))"
proof -
  from assms(3) have "validCache (loadCache env w filePath) (md5hex env content) = None"
    by (auto simp add: validCache_def split: option.splits)
  with assms(1,2) show ?thesis
    by (simp add: loadAndIndexLogs_def getFileHash_def)
qed

lemma loadAndIndexLogs_miss_fail:
  assumes "files w filePath = Inr content" and "jsonParseLogs env content = Inr logs"
    and "\<not> (\<exists>c. loadCache env w filePath = Some c \<and> fileHash c = md5hex env content)"
    and "indexLoop env logs (st\<lparr> allLogs := logs \<rparr>) w = (Inl e, st2, w2)"
  shows "loadAndIndexLogs env st w filePath = (Inl e, st2, w2)"
  using loadAndIndexLogs_miss [OF assms(1-3), of st] assms(4) by simp

lemma loadAndIndexLogs_miss_ok:
  assumes "files w filePath = Inr content" and "jsonParseLogs env content = Inr logs"
    and "\<not> (\<exists>c. loadCache env w filePath = Some c \<and> fileHash c = md5hex env content)"
    and "indexLoop env logs (st\<lparr> allLogs := logs \<rparr>) w = (Inr (), st2, w2)"
  shows "loadAndIndexLogs env st w filePath =
           (Inr (), st2, saveCache env st2 w2 filePath (md5hex env content))"
  using loadAndIndexLogs_miss [OF assms(1-3), of st] assms(4) by simp

lemma saveCache_frame:
  "files (saveCache env st w filePath h) = files w \<and>
   embedCalls (saveCache env st w filePath h) = embedCalls w \<and>
   cacheWritable (saveCache env st w filePath h) = cacheWritable w"
  by (simp add: saveCache_def Let_def)

lemma saveCache_cache:
  "loadCache env (saveCache env st w filePath h) filePath = Some c \<Longrightarrow>
   c = \<lparr> fileHash = h, cachedLogs = embeddedLogs st, createdAt = now w \<rparr>
   \<or> loadCache env w filePath = Some c"
  by (auto simp add: saveCache_def loadCache_def Let_def split: if_splits)

lemma roundtrip_hit:
  assumes f: "files w filePath = Inr content" and p: "jsonParseLogs env content = Inr logs"
    and run: "loadAndIndexLogs env st w filePath = (Inr (), st1, w1)"
    and c1: "loadCache env w1 filePath = Some c" and h: "fileHash c = md5hex env content"
  shows "loadAndIndexLogs env st1 w1 filePath = (Inr (), st1, w1)"
proof -
  have "files w1 = files w \<and> allLogs st1 = logs \<and> cachedLogs c = embeddedLogs st1"
  proof (cases "\<exists>c0. loadCache env w filePath = Some c0 \<and> fileHash c0 = md5hex env content")
    case True
    then obtain c0 where c0: "loadCache env w filePath = Some c0" "fileHash c0 = md5hex env content"
      by blast
    from run loadAndIndexLogs_hit [OF f p c0, of st]
    have "st1 = st\<lparr> allLogs := logs, embeddedLogs := cachedLogs c0 \<rparr>" and "w1 = w"
      by simp_all
    with c0 c1 show ?thesis by simp
  next
    case False
    obtain r st2 w2 where loop: "indexLoop env logs (st\<lparr> allLogs := logs \<rparr>) w = (r, st2, w2)"
      by (metis prod_cases3)
    have r: "r = Inr ()"
    proof (cases r)
      case (Inl e)
      with run loadAndIndexLogs_miss_fail [OF f p False, of st] loop show ?thesis by simp
    qed simp
    from run loadAndIndexLogs_miss_ok [OF f p False loop [unfolded r]]
    have st1: "st1 = st2" and w1: "w1 = saveCache env st2 w2 filePath (md5hex env content)"
      by auto
    from indexLoop_frame [OF loop]
    have fr: "files w2 = files w" "cacheFiles w2 = cacheFiles w" "allLogs st2 = logs"
      by simp_all
    from c1 [unfolded w1] have
      "c = \<lparr> fileHash = md5hex env content, cachedLogs = embeddedLogs st2, createdAt = now w2 \<rparr>
       \<or> loadCache env w2 filePath = Some c"
      by (rule saveCache_cache)
    moreover have "loadCache env w2 filePath \<noteq> Some c"
      using False h fr by (auto simp add: loadCache_def)
    ultimately have "cachedLogs c = embeddedLogs st2" by auto
    with fr show ?thesis by (simp add: st1 w1 saveCache_frame)
  qed
  then have f1: "files w1 filePath = Inr content" and l1: "allLogs st1 = logs"
    and e1: "cachedLogs c = embeddedLogs st1"
    using f by simp_all
  from loadAndIndexLogs_hit [OF f1 p c1 h, of st1] l1 e1
  show ?thesis by simp
qed

lemma reindex_all:
  assumes f: "files w filePath = Inr content" and p: "jsonParseLogs env content = Inr logs"
    and miss: "\<not> (\<exists>c. loadCache env w filePath = Some c \<and> fileHash c = md5hex env content)"
    and run: "loadAndIndexLogs env st w filePath = (Inr (), st', w')"
  shows "embedCalls w' = embedCalls w @ map (logToText env) logs \<and>
        (\<exists>new. embeddedLogs st' = embeddedLogs st @ new \<and> map logRec new = logs \<and>
           (\<forall>i < length logs.
              embedFn env (length (embedCalls w) + i) (logToText env (logs ! i))
                = Inr (embedding (new ! i))))"
proof -
  obtain r st2 w2 where loop: "indexLoop env logs (st\<lparr> allLogs := logs \<rparr>) w = (r, st2, w2)"
    by (metis prod_cases3)
  have r: "r = Inr ()"
  proof (cases r)
    case (Inl e)
    with run loadAndIndexLogs_miss_fail [OF f p miss, of st] loop show ?thesis by simp
  qed simp
  from run loadAndIndexLogs_miss_ok [OF f p miss loop [unfolded r]]
  have st': "st' = st2" and w': "w' = saveCache env st2 w2 filePath (md5hex env content)"
    by auto
  from indexLoop_success [OF loop [unfolded r]]
  show ?thesis
    unfolding st' w' by (auto simp add: saveCache_frame)
qed

lemma saveCache_unwritable:
  "\<not> cacheWritable w (getCachePath env filePath) \<Longrightarrow> saveCache env st w filePath h = w"
  by (simp add: saveCache_def Let_def)

lemma roundtrip_writable:
  assumes f: "files w filePath = Inr content" and p: "jsonParseLogs env content = Inr logs"
    and wr: "cacheWritable w (getCachePath env filePath)"
    and run: "loadAndIndexLogs env st w filePath = (Inr (), st1, w1)"
  shows "loadAndIndexLogs env st1 w1 filePath = (Inr (), st1, w1)"
proof -
  have "\<exists>c. loadCache env w1 filePath = Some c \<and> fileHash c = md5hex env content"
  proof (cases "\<exists>c0. loadCache env w filePath = Some c0 \<and> fileHash c0 = md5hex env content")
    case True
    then obtain c0 where c0: "loadCache env w filePath = Some c0" "fileHash c0 = md5hex env content"
      by blast
    from run loadAndIndexLogs_hit [OF f p c0, of st] have "w1 = w"
      by simp
    with c0 show ?thesis by blast
  next
    case False
    obtain r st2 w2 where loop: "indexLoop env logs (st\<lparr> allLogs := logs \<rparr>) w = (r, st2, w2)"
      by (metis prod_cases3)
    have r: "r = Inr ()"
    proof (cases r)
      case (Inl e)
      with run loadAndIndexLogs_miss_fail [OF f p False, of st] loop show ?thesis by simp
    qed simp
    from run loadAndIndexLogs_miss_ok [OF f p False loop [unfolded r]]
    have w1: "w1 = saveCache env st2 w2 filePath (md5hex env content)"
      by auto
    from indexLoop_frame [OF loop] wr
    have "cacheWritable w2 (getCachePath env filePath)"
      by simp
    then have "loadCache env w1 filePath =
                 Some \<lparr> fileHash = md5hex env content, cachedLogs = embeddedLogs st2,
                        createdAt = now w2 \<rparr>"
      by (simp add: w1 saveCache_def loadCache_def Let_def)
    then show ?thesis by simp
  qed
  then obtain c where "loadCache env w1 filePath = Some c" and "fileHash c = md5hex env content"
    by blast
  with roundtrip_hit [OF f p run] show ?thesis
    by blast
qed

text \<open>
  Claim C2. For every corpus file that can be read and parsed: when the cache that is
  stored carries the fingerprint freshly computed from the file, \<open>loadAndIndexLogs\<close>
  returns with the cached entries as the index and makes no request to the embedding model
  (the world, which records the requests, is unchanged). Otherwise the stored cache is not
  used and every record is embedded, in corpus order, by a fresh request. And indexing
  twice: when the cache file can be written, a run that has succeeded leaves a cache with
  the fingerprint of the file, so a second run on the unmodified file returns with the
  same index and the same world: it makes no request. (\<open>saveCache\<close> only warns when the
  file cannot be written; the second run then finds no valid cache, and the second part
  applies to it.)
\<close>

theorem cache_roundtrip:
  assumes f: "files w filePath = Inr content" and p: "jsonParseLogs env content = Inr logs"
  shows "(\<forall>c. loadCache env w filePath = Some c \<and> fileHash c = md5hex env content \<longrightarrow>
            loadAndIndexLogs env st w filePath =
              (Inr (), st\<lparr> allLogs := logs, embeddedLogs := cachedLogs c \<rparr>, w))
       \<and> (\<not> (\<exists>c. loadCache env w filePath = Some c \<and> fileHash c = md5hex env content) \<longrightarrow>
            (\<forall>st' w'. loadAndIndexLogs env st w filePath = (Inr (), st', w') \<longrightarrow>
               embedCalls w' = embedCalls w @ map (logToText env) logs \<and>
               (\<exists>new. embeddedLogs st' = embeddedLogs st @ new \<and> map logRec new = logs \<and>
                  (\<forall>i < length logs.
                     embedFn env (length (embedCalls w) + i) (logToText env (logs ! i))
                       = Inr (embedding (new ! i))))))
       \<and> (cacheWritable w (getCachePath env filePath) \<longrightarrow>
            (\<forall>st1 w1. loadAndIndexLogs env st w filePath = (Inr (), st1, w1) \<longrightarrow>
               loadAndIndexLogs env st1 w1 filePath = (Inr (), st1, w1)))"
  using loadAndIndexLogs_hit [OF f p] reindex_all [OF f p] roundtrip_writable [OF f p]
  by blast

theorem cache_roundtrip_witness:
  "files cachedWorld corpusPath = Inr (ascii ''corpus'')
   \<and> jsonParseLogs sampleEnv (ascii ''corpus'') = Inr sampleLogs
   \<and> loadAndIndexLogs sampleEnv newRAGSystem cachedWorld corpusPath =
        (Inr (), newRAGSystem\<lparr> allLogs := sampleLogs, embeddedLogs := sampleIndex \<rparr>, cachedWorld)
   \<and> loadCache sampleEnv sampleWorld corpusPath = None
   \<and> cacheWritable sampleWorld (getCachePath sampleEnv corpusPath)
   \<and> fst (loadAndIndexLogs sampleEnv newRAGSystem sampleWorld corpusPath) = Inr ()
   \<and> embedCalls (snd (snd (loadAndIndexLogs sampleEnv newRAGSystem sampleWorld corpusPath)))
        = map (logToText sampleEnv) sampleLogs
   \<and> loadAndIndexLogs sampleEnv
        (fst (snd (loadAndIndexLogs sampleEnv newRAGSystem sampleWorld corpusPath)))
        (snd (snd (loadAndIndexLogs sampleEnv newRAGSystem sampleWorld corpusPath))) corpusPath
       = (Inr (), snd (loadAndIndexLogs sampleEnv newRAGSystem sampleWorld corpusPath))"
proof -
  let ?c = "\<lparr> fileHash = ascii ''md5:corpus'', cachedLogs = sampleIndex,
              createdAt = ascii ''2024-01-15T12:00:00.000Z'' \<rparr>"
  let ?run = "loadAndIndexLogs sampleEnv newRAGSystem sampleWorld corpusPath"
  have f: "files cachedWorld corpusPath = Inr (ascii ''corpus'')"
    and f0: "files sampleWorld corpusPath = Inr (ascii ''corpus'')"
    by (simp_all add: cachedWorld_def sampleWorld_def)
  have p: "jsonParseLogs sampleEnv (ascii ''corpus'') = Inr sampleLogs"
    by (simp add: sampleEnv_def)
  have c: "loadCache sampleEnv cachedWorld corpusPath = Some ?c"
    by (simp add: loadCache_def cachedWorld_def)
  have h: "fileHash ?c = md5hex sampleEnv (ascii ''corpus'')"
    by (simp add: sampleEnv_def ascii_def)
  have n: "loadCache sampleEnv sampleWorld corpusPath = None"
    by (simp add: loadCache_def sampleWorld_def)
  have wr: "cacheWritable sampleWorld (getCachePath sampleEnv corpusPath)"
    by (simp add: sampleWorld_def)
  have e: "\<And>k t. embedFn sampleEnv k t = Inr [1, 0]"
    by (simp add: sampleEnv_def)
  have miss: "\<not> (\<exists>c. loadCache sampleEnv sampleWorld corpusPath = Some c \<and>
                  fileHash c = md5hex sampleEnv (ascii ''corpus''))"
    using n by simp
  let ?loop = "indexLoop sampleEnv sampleLogs (newRAGSystem\<lparr> allLogs := sampleLogs \<rparr>) sampleWorld"
  have "fst ?loop = Inr ()"
    by (simp add: sampleLogs_def indexLoop_Cons e)
  then have loop: "?loop = (Inr (), fst (snd ?loop), snd (snd ?loop))"
    by (metis prod.collapse)
  note run = loadAndIndexLogs_miss_ok [OF f0 p miss loop]
  have ok: "fst ?run = Inr ()"
    by (simp add: run)
  have run': "?run = (Inr (), fst (snd ?run), snd (snd ?run))"
    by (simp add: run)
  have w0: "embedCalls sampleWorld = []"
    by (simp add: sampleWorld_def)
  note rt = cache_roundtrip [OF f p, of newRAGSystem] cache_roundtrip [OF f0 p, of newRAGSystem]
  note hit = rt(1) [THEN conjunct1, rule_format, OF conjI [OF c h]]
  note all = rt(2) [THEN conjunct2, THEN conjunct1, rule_format, OF miss run', THEN conjunct1]
  note again = rt(2) [THEN conjunct2, THEN conjunct2, rule_format, OF wr run']
  from all have calls: "embedCalls (snd (snd ?run)) = map (logToText sampleEnv) sampleLogs"
    by (simp add: w0)
  from f p hit n wr ok calls again show ?thesis by simp
qed

text \<open>
  Claim C6. If a request to the embedding model made during an indexing run fails, the
  run ends with that error, thrown to the caller, and the cache directory is what it was
  before the run: no cache entry, and in particular no partial one, is written. (Any
  failing run leaves the cache directory untouched.)
\<close>

theorem failed_indexing_writes_no_cache:
  assumes run: "loadAndIndexLogs env st w filePath = (r, st', w')"
  shows "(isl r \<longrightarrow> cacheFiles w' = cacheFiles w)
       \<and> (\<forall>i e. length (embedCalls w) \<le> i \<and> i < length (embedCalls w') \<and>
             embedFn env i (embedCalls w' ! i) = Inl e
             \<longrightarrow> r = Inl e \<and> cacheFiles w' = cacheFiles w)"
proof (cases "files w filePath")
  case (Inl e)
  with run show ?thesis by (auto simp add: loadAndIndexLogs_def)
next
  case f: (Inr content)
  show ?thesis
  proof (cases "jsonParseLogs env content")
    case (Inl msg)
    with run f show ?thesis by (auto simp add: loadAndIndexLogs_def)
  next
    case p: (Inr logs)
    show ?thesis
    proof (cases "\<exists>c. loadCache env w filePath = Some c \<and> fileHash c = md5hex env content")
      case True
      with run loadAndIndexLogs_hit [OF f p, of _ st] show ?thesis by auto
    next
      case False
      obtain r2 st2 w2 where loop: "indexLoop env logs (st\<lparr> allLogs := logs \<rparr>) w = (r2, st2, w2)"
        by (metis prod_cases3)
      note calls = indexLoop_calls [OF loop] and frame = indexLoop_frame [OF loop]
      show ?thesis
      proof (cases r2)
        case (Inl e)
        with run loadAndIndexLogs_miss_fail [OF f p False, of st] loop
        have "r = r2" "w' = w2" by auto
        with calls frame Inl show ?thesis by blast
      next
        case (Inr u)
        with run loadAndIndexLogs_miss_ok [OF f p False, of st] loop
        have "r = Inr ()" "w' = saveCache env st2 w2 filePath (md5hex env content)"
          by auto
        with calls Inr show ?thesis by (auto simp add: saveCache_frame)
      qed
    qed
  qed
qed

theorem failed_indexing_writes_no_cache_witness:
  "fst (loadAndIndexLogs failingEnv newRAGSystem sampleWorld corpusPath) = Inl connectionRefused
   \<and> embedCalls (snd (snd (loadAndIndexLogs failingEnv newRAGSystem sampleWorld corpusPath)))
       = [logToText failingEnv (timeoutLog1), logToText failingEnv (timeoutLog2)]
   \<and> embedFn failingEnv 1 (logToText failingEnv (timeoutLog2)) = Inl connectionRefused
   \<and> cacheFiles (snd (snd (loadAndIndexLogs failingEnv newRAGSystem sampleWorld corpusPath)))
       = cacheFiles sampleWorld"
proof -
  let ?run = "loadAndIndexLogs failingEnv newRAGSystem sampleWorld corpusPath"
  have f0: "files sampleWorld corpusPath = Inr (ascii ''corpus'')"
    by (simp add: sampleWorld_def)
  have p: "jsonParseLogs failingEnv (ascii ''corpus'') = Inr sampleLogs"
    by (simp add: failingEnv_def sampleEnv_def)
  have n: "loadCache failingEnv sampleWorld corpusPath = None"
    by (simp add: loadCache_def sampleWorld_def)
  have e: "\<And>k t. embedFn failingEnv k t = (if k = 1 then Inl connectionRefused else Inr [1, 0])"
    by (simp add: failingEnv_def)
  have w0: "embedCalls sampleWorld = []"
    by (simp add: sampleWorld_def)
  have calls: "embedCalls (snd (snd ?run))
                 = [logToText failingEnv (timeoutLog1), logToText failingEnv (timeoutLog2)]"
    by (simp add: loadAndIndexLogs_def f0 p getFileHash_def n validCache_def sampleLogs_def
        indexLoop_Cons e w0 Let_def)
  have fails: "embedFn failingEnv 1 (embedCalls (snd (snd ?run)) ! 1) = Inl connectionRefused"
    by (simp add: e)
  have run: "?run = (fst ?run, fst (snd ?run), snd (snd ?run))"
    by simp
  from failed_indexing_writes_no_cache [OF run] fails calls w0
  have "fst ?run = Inl connectionRefused \<and> cacheFiles (snd (snd ?run)) = cacheFiles sampleWorld"
    by (metis One_nat_def Suc_1 le0 length_Cons lessI list.size(3))
  with calls e show ?thesis by simp
qed

section \<open>Properties of answering a question\<close>

lemma getUserContext_loaded:
  "profile m = Some p \<Longrightarrow> \<exists>c. getUserContext m = Inr c"
  by (simp add: getUserContext_def Let_def)

lemma intentOf_cases:
  "intentOf st question = NameLookup \<longleftrightarrow> isNameQuery (normalizeQuestion question)"
  "intentOf st question = PersonalProfile \<longleftrightarrow>
     \<not> isNameQuery (normalizeQuestion question) \<and> isPersonalQuery question \<and> currentProfile st \<noteq> None"
  "intentOf st question = Statistical \<longleftrightarrow>
     \<not> isNameQuery (normalizeQuestion question) \<and> \<not> (isPersonalQuery question \<and> currentProfile st \<noteq> None)
     \<and> isStatisticalQuery question"
  "intentOf st question = Analytical \<longleftrightarrow>
     \<not> isNameQuery (normalizeQuestion question) \<and> \<not> (isPersonalQuery question \<and> currentProfile st \<noteq> None)
     \<and> \<not> isStatisticalQuery question"
  by (simp_all add: intentOf_def)

text \<open>What \<open>askQuestion\<close> does on each of its paths.\<close>

lemma askQuestion_NameLookup:
  assumes "intentOf st question = NameLookup"
  shows "askQuestion env st w question onToken =
           reply w onToken
             (case currentProfile st of
                None \<Rightarrow> nameNotSet
              | Some p \<Rightarrow>
                  if name p \<noteq> []
                  then (if useEmoji (preferences p) then [55357, 56420, 32] else []) @ name p
                  else nameNotSet)"
  using assms
  by (simp add: intentOf_cases askQuestion_def Let_def split: option.splits)

lemma askQuestion_PersonalProfile:
  assumes "intentOf st question = PersonalProfile"
  shows "\<exists>m p c. personalization st = Some m \<and> profile m = Some p \<and> getUserContext m = Inr c \<and>
           askQuestion env st w question onToken = reply w onToken (personalResponse st p c)"
proof -
  from assms have n: "\<not> isNameQuery (normalizeQuestion question)" and q: "isPersonalQuery question"
    and "currentProfile st \<noteq> None"
    by (simp_all add: intentOf_cases)
  then obtain m p where m: "personalization st = Some m" and p: "profile m = Some p"
    by (auto simp add: currentProfile_def getProfile_def split: option.splits)
  from getUserContext_loaded [OF p] obtain c where c: "getUserContext m = Inr c" ..
  from n q m p c have "askQuestion env st w question onToken = reply w onToken (personalResponse st p c)"
    by (simp add: askQuestion_def Let_def getProfile_def)
  with m p c show ?thesis by blast
qed

lemma askQuestion_retrieve:
  assumes "intentOf st question = Statistical \<or> intentOf st question = Analytical"
  shows "askQuestion env st w question onToken = retrieveAndChat env st w question onToken"
  using assms
  by (auto simp add: intentOf_cases askQuestion_def Let_def currentProfile_def
      split: option.splits)

lemma retrieveAndChat_statistical:
  assumes "isStatisticalQuery question"
    and "embedFn env (length (embedCalls w)) question = Inr v"
    and "userContext st = Inr uc"
  shows "retrieveAndChat env st w question onToken =
           chat env (w\<lparr> embedCalls := embedCalls w @ [question] \<rparr>)
             (statisticsSystemPrompt (baseSystemPrompt st uc) (getStatistics st))
             (statisticsUserMessage question) onToken"
  using assms by (simp add: retrieveAndChat_def findRelevantLogs_Inr Let_def)

text \<open>\<open>trim\<close> leaves the middle of a string alone.\<close>

lemma trimStart_append:
  "\<exists>c \<in> set a. \<not> isWhiteSpace c \<Longrightarrow> trimStart (a @ b) = trimStart a @ b"
  by (auto simp add: trimStart_def dropWhile_append1)

lemma trimEnd_append:
  "\<exists>c \<in> set b. \<not> isWhiteSpace c \<Longrightarrow> trimEnd (a @ b) = a @ trimEnd b"
  by (auto simp add: trimEnd_def dropWhile_append1)

lemma trim_middle:
  assumes "\<exists>c \<in> set a. \<not> isWhiteSpace c" and "\<exists>c \<in> set b. \<not> isWhiteSpace c"
  shows "trim (a @ m @ b) = trimStart a @ m @ trimEnd b"
proof -
  have "trimStart (a @ m @ b) = trimStart a @ m @ b"
    using assms(1) by (rule trimStart_append)
  moreover have "trimEnd ((trimStart a @ m) @ b) = (trimStart a @ m) @ trimEnd b"
    using assms(2) by (rule trimEnd_append)
  ultimately show ?thesis by (simp add: trim_def)
qed

lemma statisticsPrefix_visible: "\<exists>c \<in> set (statisticsPrefix base). \<not> isWhiteSpace c"
proof
  show "77 \<in> set (statisticsPrefix base)"
    by (simp add: statisticsPrefix_def ascii_def)
  show "\<not> isWhiteSpace 77"
    by (simp add: isWhiteSpace_def)
qed

lemma statisticsSuffix_visible: "\<exists>c \<in> set statisticsSuffix. \<not> isWhiteSpace c"
proof
  show "82 \<in> set statisticsSuffix"
    by (simp add: statisticsSuffix_def ascii_def)
  show "\<not> isWhiteSpace 82"
    by (simp add: isWhiteSpace_def)
qed

lemma statisticsSystemPrompt_contains:
  "statisticsSystemPrompt base stats =
     trimStart (statisticsPrefix base) @ stats @ trimEnd statisticsSuffix"
  unfolding statisticsSystemPrompt_def
  by (rule trim_middle [OF statisticsPrefix_visible statisticsSuffix_visible])

text \<open>The intents of the sample questions, by evaluation.\<close>

lemma normalizeQuestion_mixedQuestion: "normalizeQuestion mixedQuestion = mixedQuestion"
  by (simp add: normalizeQuestion_def mixedQuestion_def trim_def trimStart_def trimEnd_def
      isWhiteSpace_def toLowerCase_def lowerUnit_def removePunctuation_def)

lemma not_isNameQuery_mixedQuestion: "\<not> isNameQuery mixedQuestion"
  unfolding isNameQuery_def test_def nameRx1_def nameRx2_def nameRx3_def mixedQuestion_def
  by (simp add: sameUnit_def isWordChar_def isWhiteSpace_def)

lemma isPersonalQuery_mixedQuestion: "isPersonalQuery mixedQuestion"
  unfolding isPersonalQuery_def test_def personalRx_def mixedQuestion_def
  by (simp add: sameUnit_def upperUnit_def)

lemma isStatisticalQuery_mixedQuestion: "isStatisticalQuery mixedQuestion"
  unfolding isStatisticalQuery_def test_def statisticalRx_def mixedQuestion_def
  by (simp add: sameUnit_def upperUnit_def)

lemma normalizeQuestion_whoAmIQuestion: "normalizeQuestion whoAmIQuestion = whoAmIQuestion"
  by (simp add: normalizeQuestion_def whoAmIQuestion_def trim_def trimStart_def trimEnd_def
      isWhiteSpace_def toLowerCase_def lowerUnit_def removePunctuation_def)

lemma not_isNameQuery_whoAmIQuestion: "\<not> isNameQuery whoAmIQuestion"
  unfolding isNameQuery_def test_def nameRx1_def nameRx2_def nameRx3_def whoAmIQuestion_def
  by (simp add: sameUnit_def isWordChar_def isWhiteSpace_def)

lemma isPersonalQuery_whoAmIQuestion: "isPersonalQuery whoAmIQuestion"
  unfolding isPersonalQuery_def test_def personalRx_def whoAmIQuestion_def
  by (simp add: sameUnit_def upperUnit_def)

lemma normalizeQuestion_timeoutQuestion:
  "normalizeQuestion timeoutQuestion =
     [1089, 1082, 1086, 1083, 1100, 1082, 1086, 32, 1086, 1096, 1080, 1073, 1086, 1082, 32,
      116, 105, 109, 101, 111, 117, 116]"
  by (simp add: normalizeQuestion_def timeoutQuestion_def trim_def trimStart_def trimEnd_def
      isWhiteSpace_def toLowerCase_def lowerUnit_def removePunctuation_def ascii_def)

lemma not_isNameQuery_timeoutQuestion: "\<not> isNameQuery (normalizeQuestion timeoutQuestion)"
  unfolding isNameQuery_def test_def nameRx1_def nameRx2_def nameRx3_def
    normalizeQuestion_timeoutQuestion
  by (simp add: sameUnit_def isWordChar_def isWhiteSpace_def)

lemma not_isPersonalQuery_timeoutQuestion: "\<not> isPersonalQuery timeoutQuestion"
  unfolding isPersonalQuery_def test_def personalRx_def timeoutQuestion_def ascii_def
  by (simp add: sameUnit_def upperUnit_def)

lemma isStatisticalQuery_timeoutQuestion: "isStatisticalQuery timeoutQuestion"
  unfolding isStatisticalQuery_def test_def statisticalRx_def timeoutQuestion_def ascii_def
  by (simp add: sameUnit_def upperUnit_def)

lemma normalizeQuestion_latinEdgedQuestion:
  "normalizeQuestion latinEdgedQuestion =
     [97, 1084, 1077, 1085, 1103, 32, 1079, 1086, 1074, 1091, 1090, 98, 32, 1089, 1082, 1086,
      1083, 1100, 1082, 1086]"
  by (simp add: normalizeQuestion_def latinEdgedQuestion_def trim_def trimStart_def trimEnd_def
      isWhiteSpace_def toLowerCase_def lowerUnit_def removePunctuation_def)

lemma isNameQuery_latinEdgedQuestion: "isNameQuery (normalizeQuestion latinEdgedQuestion)"
  unfolding isNameQuery_def test_def nameRx1_def normalizeQuestion_latinEdgedQuestion
  by (simp add: sameUnit_def isWordChar_def isWhiteSpace_def)

lemma isStatisticalQuery_latinEdgedQuestion: "isStatisticalQuery latinEdgedQuestion"
  unfolding isStatisticalQuery_def test_def statisticalRx_def latinEdgedQuestion_def
  by (simp add: sameUnit_def upperUnit_def)

text \<open>
  The order of the tests is the one the specification asks for: a question that passes
  the name test takes the name path, whatever else it matches.
\<close>

lemma name_test_first:
  "isNameQuery (normalizeQuestion question) \<Longrightarrow> intentOf st question = NameLookup"
  by (simp add: intentOf_def)

lemma intentOf_latinEdgedQuestion:
  "isStatisticalQuery latinEdgedQuestion \<and> intentOf st latinEdgedQuestion = NameLookup"
  by (simp add: isStatisticalQuery_latinEdgedQuestion name_test_first
      isNameQuery_latinEdgedQuestion)

lemma currentProfile_profiledSystem: "currentProfile profiledSystem = Some testProfile"
  by (simp add: currentProfile_def profiledSystem_def setPersonalization_def getProfile_def)

text \<open>
  Claim C3, evaluated on the code. The tests of \<open>askQuestion\<close> are in the order of the
  claim, and a question that passes the name test and matches the statistics pattern takes
  the name path. But the question of the claim does not pass the name test: each name
  pattern is enclosed in word-boundary assertions, for which only \<open>[A-Za-z0-9_]\<close> are
  word characters, so between a Cyrillic letter and a space, or the start or end of the
  question, there is no boundary. The question falls to the next test: with a profile
  loaded it takes the profile path and is answered with the profile summary; without one
  it is answered in the statistics mode.
\<close>

theorem mixed_question_is_not_NameLookup:
  "\<not> isNameQuery (normalizeQuestion mixedQuestion)
   \<and> isPersonalQuery mixedQuestion \<and> isStatisticalQuery mixedQuestion
   \<and> intentOf profiledSystem mixedQuestion = PersonalProfile
   \<and> intentOf newRAGSystem mixedQuestion = Statistical
   \<and> (\<exists>c. fst (askQuestion sampleEnv profiledSystem sampleWorld mixedQuestion False)
            = Inr (personalResponse profiledSystem testProfile c))"
proof -
  have n: "\<not> isNameQuery (normalizeQuestion mixedQuestion)"
    by (simp add: normalizeQuestion_mixedQuestion not_isNameQuery_mixedQuestion)
  have p: "intentOf profiledSystem mixedQuestion = PersonalProfile"
    by (simp add: intentOf_def n isPersonalQuery_mixedQuestion currentProfile_profiledSystem)
  have s: "intentOf newRAGSystem mixedQuestion = Statistical"
    by (simp add: intentOf_def n isStatisticalQuery_mixedQuestion currentProfile_def
        newRAGSystem_def)
  from askQuestion_PersonalProfile [OF p, of sampleEnv sampleWorld False]
  have "\<exists>c. fst (askQuestion sampleEnv profiledSystem sampleWorld mixedQuestion False)
            = Inr (personalResponse profiledSystem testProfile c)"
    by (auto simp add: reply_def profiledSystem_def setPersonalization_def)
  with n p s show ?thesis
    by (simp add: isPersonalQuery_mixedQuestion isStatisticalQuery_mixedQuestion)
qed

lemma reply_parts:
  "fst (reply w onToken response) = Inr response"
  "snd (snd (reply w onToken response)) = w"
  by (simp_all add: reply_def)

lemma intentOf_cong:
  "personalization st' = personalization st \<Longrightarrow> intentOf st' question = intentOf st question"
  by (simp add: intentOf_def currentProfile_def)

lemma currentProfile_cong:
  "personalization st' = personalization st \<Longrightarrow> currentProfile st' = currentProfile st"
  by (simp add: currentProfile_def)

text \<open>The profile answer ends with the personalized summary, which is computed from the
  corpus.\<close>

lemma getPersonalizedSummary_cong:
  "personalization st' = personalization st \<Longrightarrow> allLogs st' = allLogs st \<Longrightarrow>
   getPersonalizedSummary st' = getPersonalizedSummary st"
  by (simp add: getPersonalizedSummary_def Let_def split: option.splits)

lemma showNat_digit: "n < 10 \<Longrightarrow> showNat n = [48 + n]"
  by (subst showNat.simps) simp

lemma showNat_more: "\<not> n < 10 \<Longrightarrow> showNat n = showNat (n div 10) @ [48 + n mod 10]"
  by (subst showNat.simps) simp

lemma personalResponse_summary:
  "personalResponse st p c =
     personalResponse \<lparr> embeddedLogs = [], allLogs = [], personalization = None \<rparr> p c
     @ getPersonalizedSummary st"
proof -
  have "getPersonalizedSummary \<lparr> embeddedLogs = [], allLogs = [], personalization = None \<rparr> = []"
    by (simp add: getPersonalizedSummary_def)
  then show ?thesis
    by (simp add: personalResponse_def Let_def)
qed

lemma summary_quiet:
  "getPersonalizedSummary profiledSystem =
     [10, 32, 9989, 32, 1042, 32, 1090, 1074, 1086, 1080, 1093, 32, 1089, 1077, 1088, 1074,
      1080, 1089, 1072, 1093, 32, 40]
     @ ascii ''api-gateway, auth-service''
     @ [41, 32, 1074, 1089, 1105, 32, 1089, 1087, 1086, 1082, 1086, 1081, 1085, 1086, 33]"
  by (simp add: getPersonalizedSummary_def profiledSystem_def setPersonalization_def
      newRAGSystem_def getProfile_def testProfile_def Let_def ascii_def)

lemma relevant_gatewayLog:
  "isRelevantToUser \<lparr> profile = Some testProfile \<rparr> (service gatewayLog) (error_type gatewayLog)
     = Inr True"
  by (simp add: isRelevantToUser_def testProfile_def gatewayLog_def)

lemma summary_one_problem:
  "getPersonalizedSummary (profiledSystem\<lparr> allLogs := [gatewayLog] \<rparr>) =
     [10, 32, 9888, 65039, 32, 1042, 1040, 1046, 1053, 1054, 32, 1044, 1051, 1071, 32, 1058,
      1045, 1041, 1071, 58, 32, 49, 32, 1087, 1088, 1086, 1073, 1083, 1077, 1084, 1072, 32,
      1074, 32, 1090, 1074, 1086, 1080, 1093, 32, 1089, 1077, 1088, 1074, 1080, 1089, 1072,
      1093, 32, 40]
     @ ascii ''api-gateway, auth-service'' @ [41]"
proof -
  have s: "showNat (Suc 0) = [49]" by (simp add: showNat_digit)
  have p: "preferences testProfile = \<lparr> answerStyle = [1082, 1088, 1072, 1090, 1082, 1080, 1081],
           includeRecommendations = True,
           technicalLevel = [1087, 1088, 1086, 1076, 1074, 1080, 1085, 1091, 1090, 1099, 1081],
           useEmoji = True \<rparr>"
    and r: "services (responsibilities testProfile) = [ascii ''api-gateway'', ascii ''auth-service'']"
    by (simp_all add: testProfile_def)
  show ?thesis
    by (simp add: getPersonalizedSummary_def profiledSystem_def setPersonalization_def
      newRAGSystem_def getProfile_def Let_def relevant_gatewayLog s p r ascii_def)
qed


lemma summaries_differ:
  "getPersonalizedSummary (profiledSystem\<lparr> allLogs := [gatewayLog] \<rparr>)
     \<noteq> getPersonalizedSummary profiledSystem"
proof -
  have a: "getPersonalizedSummary profiledSystem ! 2 = 9989"
    unfolding summary_quiet by simp
  have b: "getPersonalizedSummary (profiledSystem\<lparr> allLogs := [gatewayLog] \<rparr>) ! 2 = 9888"
    unfolding summary_one_problem by simp
  show ?thesis
  proof
    assume "getPersonalizedSummary (profiledSystem\<lparr> allLogs := [gatewayLog] \<rparr>)
              = getPersonalizedSummary profiledSystem"
    with a b show False by simp
  qed
qed

lemma personalResponse_cong:
  "personalization st' = personalization st \<Longrightarrow> allLogs st' = allLogs st \<Longrightarrow>
   personalResponse st' p c = personalResponse st p c"
  using getPersonalizedSummary_cong [of st' st] by (simp add: personalResponse_def)

lemma intentOf_whoAmI:
  "personalization st = Some \<lparr> profile = Some testProfile \<rparr> \<Longrightarrow>
   intentOf st whoAmIQuestion = PersonalProfile"
  by (simp add: intentOf_def normalizeQuestion_whoAmIQuestion not_isNameQuery_whoAmIQuestion
      isPersonalQuery_whoAmIQuestion currentProfile_def getProfile_def)

text \<open>
  Claim C4 as stated fails in its last part: the answer on the profile path is not built
  from the profile alone. With the same profile and the same question, an empty corpus
  and a corpus of one record of the user's service give different answers (the first ends
  "all is quiet", the second "important for you: 1 problem").
\<close>

theorem profile_answer_depends_on_corpus:
  "intentOf profiledSystem whoAmIQuestion = PersonalProfile
   \<and> intentOf (profiledSystem\<lparr> allLogs := [gatewayLog] \<rparr>) whoAmIQuestion = PersonalProfile
   \<and> personalization (profiledSystem\<lparr> allLogs := [gatewayLog] \<rparr>) = personalization profiledSystem
   \<and> fst (askQuestion sampleEnv (profiledSystem\<lparr> allLogs := [gatewayLog] \<rparr>) sampleWorld
          whoAmIQuestion False)
     \<noteq> fst (askQuestion sampleEnv profiledSystem sampleWorld whoAmIQuestion False)"
proof -
  let ?st2 = "profiledSystem\<lparr> allLogs := [gatewayLog] \<rparr>"
  have m1: "personalization profiledSystem = Some \<lparr> profile = Some testProfile \<rparr>"
    and m2: "personalization ?st2 = Some \<lparr> profile = Some testProfile \<rparr>"
    by (simp_all add: profiledSystem_def setPersonalization_def)
  note i1 = intentOf_whoAmI [OF m1] and i2 = intentOf_whoAmI [OF m2]
  from askQuestion_PersonalProfile [OF i1, of sampleEnv sampleWorld False] m1
  obtain c where c: "getUserContext \<lparr> profile = Some testProfile \<rparr> = Inr c"
    and a1: "fst (askQuestion sampleEnv profiledSystem sampleWorld whoAmIQuestion False)
             = Inr (personalResponse profiledSystem testProfile c)"
    by (auto simp add: reply_parts)
  from askQuestion_PersonalProfile [OF i2, of sampleEnv sampleWorld False] m2 c
  have a2: "fst (askQuestion sampleEnv ?st2 sampleWorld whoAmIQuestion False)
             = Inr (personalResponse ?st2 testProfile c)"
    by (auto simp add: reply_parts)
  have "getPersonalizedSummary ?st2 \<noteq> getPersonalizedSummary profiledSystem"
    by (rule summaries_differ)
  then have "personalResponse ?st2 testProfile c \<noteq> personalResponse profiledSystem testProfile c"
    by (simp add: personalResponse_summary [of ?st2] personalResponse_summary [of profiledSystem])
  with i1 i2 m1 m2 a1 a2 show ?thesis by simp
qed

text \<open>
  Claim C4, amended. For every question on the name path or the profile path,
  \<open>askQuestion\<close> skips retrieval: the world is left as it was, so no embedding request
  (and with it no ranking) and no chat request is made. The answer on the name path is
  built from the profile alone. The answer on the profile path is built from the profile
  and the personalized summary, which counts the records of the whole corpus that are
  relevant to the user; it depends on nothing else (not on the index, not on the models).
\<close>

theorem profile_paths_skip_retrieval:
  assumes "intentOf st question = NameLookup \<or> intentOf st question = PersonalProfile"
  shows "snd (snd (askQuestion env st w question onToken)) = w
       \<and> (intentOf st question = NameLookup \<longrightarrow>
            (\<forall>env' st' w'. personalization st' = personalization st \<longrightarrow>
               fst (askQuestion env' st' w' question onToken)
                 = fst (askQuestion env st w question onToken)))
       \<and> (intentOf st question = PersonalProfile \<longrightarrow>
            (\<exists>p c. currentProfile st = Some p \<and>
                   getUserContext \<lparr> profile = Some p \<rparr> = Inr c \<and>
                   fst (askQuestion env st w question onToken) = Inr (personalResponse st p c)) \<and>
            (\<forall>env' st' w'. personalization st' = personalization st \<and> allLogs st' = allLogs st \<longrightarrow>
               fst (askQuestion env' st' w' question onToken)
                 = fst (askQuestion env st w question onToken)))"
proof (intro conjI impI allI)
  show "snd (snd (askQuestion env st w question onToken)) = w"
    using assms
  proof
    assume "intentOf st question = NameLookup"
    then show ?thesis by (simp add: askQuestion_NameLookup reply_parts)
  next
    assume "intentOf st question = PersonalProfile"
    from askQuestion_PersonalProfile [OF this, of env w onToken]
    show ?thesis by (auto simp add: reply_parts)
  qed
next
  fix env' :: env and st' :: ragSystem and w' :: world
  assume n: "intentOf st question = NameLookup" and p: "personalization st' = personalization st"
  then have "intentOf st' question = NameLookup"
    using intentOf_cong [of st' st question] by simp
  with n currentProfile_cong [OF p]
  show "fst (askQuestion env' st' w' question onToken)
                 = fst (askQuestion env st w question onToken)"
    by (simp add: askQuestion_NameLookup reply_parts)
next
  assume i: "intentOf st question = PersonalProfile"
  from askQuestion_PersonalProfile [OF i, of env w onToken]
  obtain m p c where m: "personalization st = Some m" and p: "profile m = Some p"
    and c: "getUserContext m = Inr c"
    and a: "askQuestion env st w question onToken = reply w onToken (personalResponse st p c)"
    by blast
  have "m = \<lparr> profile = Some p \<rparr>" using p by (cases m) simp
  with m p c a
  show "\<exists>p c. currentProfile st = Some p \<and>
              getUserContext \<lparr> profile = Some p \<rparr> = Inr c \<and>
              fst (askQuestion env st w question onToken) = Inr (personalResponse st p c)"
    by (auto simp add: currentProfile_def getProfile_def reply_parts)
next
  fix env' :: env and st' :: ragSystem and w' :: world
  assume i: "intentOf st question = PersonalProfile"
    and eq: "personalization st' = personalization st \<and> allLogs st' = allLogs st"
  then have i': "intentOf st' question = PersonalProfile"
    using intentOf_cong [of st' st question] by simp
  from askQuestion_PersonalProfile [OF i, of env w onToken]
  obtain m p c where m: "personalization st = Some m" and p: "profile m = Some p"
    and c: "getUserContext m = Inr c"
    and a: "askQuestion env st w question onToken = reply w onToken (personalResponse st p c)"
    by blast
  from askQuestion_PersonalProfile [OF i', of env' w' onToken] m p c eq
  have "askQuestion env' st' w' question onToken = reply w' onToken (personalResponse st' p c)"
    by auto
  with a personalResponse_cong [of st' st p c] eq
  show "fst (askQuestion env' st' w' question onToken)
                 = fst (askQuestion env st w question onToken)"
    by (simp add: reply_parts)
qed

theorem profile_paths_skip_retrieval_witness:
  "intentOf profiledSystem whoAmIQuestion = PersonalProfile
   \<and> snd (snd (askQuestion failingEnv profiledSystem sampleWorld whoAmIQuestion True)) = sampleWorld
   \<and> embedCalls sampleWorld = [] \<and> chatCalls sampleWorld = []
   \<and> fst (askQuestion failingEnv (profiledSystem\<lparr> embeddedLogs := sampleIndex \<rparr>) cachedWorld
          whoAmIQuestion True)
     = fst (askQuestion sampleEnv profiledSystem sampleWorld whoAmIQuestion True)
   \<and> intentOf profiledSystem latinEdgedQuestion = NameLookup
   \<and> snd (snd (askQuestion sampleEnv profiledSystem sampleWorld latinEdgedQuestion True)) = sampleWorld"
proof -
  have m1: "personalization profiledSystem = Some \<lparr> profile = Some testProfile \<rparr>"
    by (simp add: profiledSystem_def setPersonalization_def)
  note i = intentOf_whoAmI [OF m1]
  have n: "intentOf profiledSystem latinEdgedQuestion = NameLookup"
    by (simp add: intentOf_latinEdgedQuestion)
  have same: "personalization (profiledSystem\<lparr> embeddedLogs := sampleIndex \<rparr>) = personalization profiledSystem
              \<and> allLogs (profiledSystem\<lparr> embeddedLogs := sampleIndex \<rparr>) = allLogs profiledSystem"
    by simp
  note a = profile_paths_skip_retrieval [OF disjI2 [OF i], of failingEnv sampleWorld True]
    and b = profile_paths_skip_retrieval [OF disjI2 [OF i], of sampleEnv sampleWorld True]
    and c = profile_paths_skip_retrieval [OF disjI1 [OF n], of sampleEnv sampleWorld True]
  from b [THEN conjunct2, THEN conjunct2, rule_format, OF i, THEN conjunct2, rule_format, OF same,
          of failingEnv cachedWorld]
  have d: "fst (askQuestion failingEnv (profiledSystem\<lparr> embeddedLogs := sampleIndex \<rparr>) cachedWorld
             whoAmIQuestion True)
           = fst (askQuestion sampleEnv profiledSystem sampleWorld whoAmIQuestion True)" .
  have w0: "embedCalls sampleWorld = [] \<and> chatCalls sampleWorld = []"
    by (simp add: sampleWorld_def)
  from a [THEN conjunct1] c [THEN conjunct1] d i n w0 show ?thesis
    by simp
qed

lemma chat_calls:
  "chatCalls (snd (snd (chat env w systemPrompt userMessage onToken)))
     = chatCalls w @ [(systemPrompt, userMessage)]"
  by (simp add: chat_def split: prod.splits)

lemma userContext_cong:
  "personalization st' = personalization st \<Longrightarrow> userContext st' = userContext st"
  by (simp add: userContext_def)

lemma baseSystemPrompt_cong:
  "personalization st' = personalization st \<Longrightarrow> baseSystemPrompt st' uc = baseSystemPrompt st uc"
  by (simp add: baseSystemPrompt_def)

lemma getStatistics_cong:
  "allLogs st' = allLogs st \<Longrightarrow> getStatistics st' = getStatistics st"
  by (simp add: getStatistics_def)

lemma askQuestion_statistical:
  assumes "intentOf st question = Statistical"
    and "embedFn env (length (embedCalls w)) question = Inr v"
    and "userContext st = Inr uc"
  shows "askQuestion env st w question onToken =
           chat env (w\<lparr> embedCalls := embedCalls w @ [question] \<rparr>)
             (statisticsSystemPrompt (baseSystemPrompt st uc) (getStatistics st))
             (statisticsUserMessage question) onToken"
proof -
  from assms(1) have "isStatisticalQuery question" by (simp add: intentOf_cases)
  from retrieveAndChat_statistical [OF this assms(2,3)] assms(1)
  show ?thesis by (simp add: askQuestion_retrieve)
qed

text \<open>\<open>occursIn\<close> is the existence of a text in front of the part and of one behind it.\<close>

lemma occursIn_iff: "occursIn part s = (\<exists>front rear. s = front @ part @ rear)"
proof
  assume "occursIn part s"
  then obtain i where i: "take (length part) (drop i s) = part"
    by (auto simp add: occursIn_def list_ex_iff)
  have "s = take i s @ take (length part) (drop i s) @ drop (length part) (drop i s)"
    by (simp only: append_take_drop_id)
  with i have "s = take i s @ part @ drop (length part) (drop i s)"
    by simp
  then show "\<exists>front rear. s = front @ part @ rear"
    by blast
next
  assume "\<exists>front rear. s = front @ part @ rear"
  then obtain front rear where s: "s = front @ part @ rear"
    by blast
  then have "take (length part) (drop (length front) s) = part" and "length front \<le> length s"
    by simp_all
  then show "occursIn part s"
    unfolding occursIn_def list_ex_iff by (intro bexI [of _ "length front"]) auto
qed

lemma occursIn_appendI: "occursIn part (front @ part @ rear)"
  unfolding occursIn_iff by blast

lemma occursIn_append_leftI: "occursIn part (front @ part)"
  using occursIn_appendI [of part front "[]"] by simp

lemma occursIn_refl: "occursIn s s"
  using occursIn_appendI [of s "[]" "[]"] by simp

lemma occursIn_trans: "occursIn a b \<Longrightarrow> occursIn b c \<Longrightarrow> occursIn a c"
proof -
  assume "occursIn a b" and "occursIn b c"
  then obtain f r f' r' where "b = f @ a @ r" and "c = f' @ b @ r'"
    unfolding occursIn_iff by blast
  then have "c = (f' @ f) @ a @ (r @ r')"
    by simp
  then show "occursIn a c"
    unfolding occursIn_iff by blast
qed

text \<open>
  The counters: after the loop of \<open>getStatistics\<close> the object holds, for every key that
  occurs, the number of records that carry it.
\<close>

lemma map_of_countUp:
  "map_of (countUp key obj) k =
     (if k = key then Some (case map_of obj key of None \<Rightarrow> 1 | Some n \<Rightarrow> n + 1)
      else map_of obj k)"
  by (induction key obj rule: countUp.induct) auto

lemma map_of_foldl_countUp:
  "map_of (foldl (\<lambda>obj key. countUp key obj) obj keys) k =
     (if count_list keys k = 0 then map_of obj k
      else Some ((case map_of obj k of None \<Rightarrow> 0 | Some n \<Rightarrow> n) + count_list keys k))"
  by (induction keys arbitrary: obj) (auto simp add: map_of_countUp split: option.splits)

lemma count_list_map_field:
  "count_list (map field logs) key = length (filter (\<lambda>x. field x = key) logs)"
  by (induction logs) auto

lemma countBy_keys:
  "countBy field logs = foldl (\<lambda>obj key. countUp key obj) [] (map field logs)"
  by (simp add: countBy_def foldl_map)

lemma countBy_entry:
  assumes "l \<in> set logs"
  shows "(field l, length (filter (\<lambda>x. field x = field l) logs)) \<in> set (countBy field logs)"
proof -
  from assms have "filter (\<lambda>x. field x = field l) logs \<noteq> []"
    by (auto simp add: filter_empty_conv)
  then have "count_list (map field logs) (field l) \<noteq> 0"
    by (simp add: count_list_map_field)
  then have "map_of (countBy field logs) (field l)
               = Some (length (filter (\<lambda>x. field x = field l) logs))"
    by (simp add: countBy_keys map_of_foldl_countUp count_list_map_field)
  then show ?thesis
    by (rule map_of_SomeD)
qed

text \<open>
  Every entry becomes one line of the sorted table, and every line of the table stands
  between two line feeds of the statistics.
\<close>

lemma set_objectEntries: "set (objectEntries obj) = set obj"
  by (auto simp add: objectEntries_def)

lemma join_line:
  "x \<in> set xs \<Longrightarrow> occursIn ([10] @ x @ [10]) ([10] @ join [10] xs @ [10])"
proof (induction "[10::nat]" xs rule: join.induct)
  case 1
  then show ?case by simp
next
  case (2 y)
  then show ?case by (simp add: occursIn_refl)
next
  case (3 y z zs)
  show ?case
  proof (cases "x = y")
    case True
    have "[10] @ join [10] (y # z # zs) @ [10] = [] @ ([10] @ x @ [10]) @ (join [10] (z # zs) @ [10])"
      by (simp add: True)
    then show ?thesis
      unfolding occursIn_iff by blast
  next
    case False
    with 3 have "occursIn ([10] @ x @ [10]) ([10] @ join [10] (z # zs) @ [10])"
      by simp
    then have "occursIn ([10] @ x @ [10]) (([10] @ y) @ ([10] @ join [10] (z # zs) @ [10]))"
      by (rule occursIn_trans [OF _ occursIn_append_leftI])
    then show ?thesis by simp
  qed
qed

lemma digit_visible: "k < 10 \<Longrightarrow> \<not> isWhiteSpace (48 + k)"
  by (auto simp add: isWhiteSpace_def)

lemma showNat_end: "\<exists>body c. showNat n = body @ [c] \<and> \<not> isWhiteSpace c"
proof (cases "n < 10")
  case True
  then have "showNat n = [] @ [48 + n]" and "\<not> isWhiteSpace (48 + n)"
    by (simp_all add: showNat_digit digit_visible)
  then show ?thesis by blast
next
  case False
  have "\<not> isWhiteSpace (48 + n mod 10)"
    by (rule digit_visible) simp
  moreover from False have "showNat n = showNat (n div 10) @ [48 + n mod 10]"
    by (simp add: showNat_more)
  ultimately show ?thesis by blast
qed

lemma statLine_end: "\<exists>body c. statLine e = body @ [c] \<and> \<not> isWhiteSpace c"
proof -
  obtain body c where "showNat (snd e) = body @ [c]" and c: "\<not> isWhiteSpace c"
    using showNat_end by blast
  then have "statLine e = (ascii ''  - '' @ fst e @ ascii '': '' @ body) @ [c]"
    by (simp add: statLine_def)
  with c show ?thesis by blast
qed

lemma join_end:
  "xs \<noteq> [] \<Longrightarrow> \<forall>x \<in> set xs. \<exists>body c. x = body @ [c] \<and> \<not> isWhiteSpace c \<Longrightarrow>
   \<exists>body c. join sep xs = body @ [c] \<and> \<not> isWhiteSpace c"
proof (induction sep xs rule: join.induct)
  case (1 sep)
  then show ?case by simp
next
  case (2 sep x)
  then show ?case by simp
next
  case (3 sep x y ys)
  then obtain body c where "join sep (y # ys) = body @ [c]" and c: "\<not> isWhiteSpace c"
    by auto
  then have "join sep (x # y # ys) = (x @ sep @ body) @ [c]"
    by simp
  with c show ?case by blast
qed

lemma sortedCounts_end:
  assumes "logs \<noteq> []"
  shows "\<exists>body c. sortedCounts field logs = body @ [c] \<and> \<not> isWhiteSpace c"
proof -
  from assms have "hd logs \<in> set logs" by simp
  from countBy_entry [OF this, of field]
  have "set (arraySort byCount (objectEntries (countBy field logs))) \<noteq> {}"
    by (auto simp add: set_arraySort set_objectEntries)
  then have "map statLine (arraySort byCount (objectEntries (countBy field logs))) \<noteq> []"
    by auto
  moreover have "\<forall>x \<in> set (map statLine (arraySort byCount (objectEntries (countBy field logs)))).
                   \<exists>body c. x = body @ [c] \<and> \<not> isWhiteSpace c"
    using statLine_end by auto
  ultimately show ?thesis
    unfolding sortedCounts_def by (rule join_end)
qed

lemma sortedCounts_line:
  assumes "l \<in> set logs"
  shows "occursIn ([10] @ statLine (field l, length (filter (\<lambda>x. field x = field l) logs)) @ [10])
           ([10] @ sortedCounts field logs @ [10])"
proof -
  from countBy_entry [OF assms, of field]
  have "statLine (field l, length (filter (\<lambda>x. field x = field l) logs))
          \<in> set (map statLine (arraySort byCount (objectEntries (countBy field logs))))"
    by (simp add: set_arraySort set_objectEntries)
  then show ?thesis
    unfolding sortedCounts_def by (rule join_line)
qed

lemma trimEnd_tail:
  "\<not> isWhiteSpace c \<Longrightarrow> list_all isWhiteSpace t \<Longrightarrow> trimEnd (a @ [c] @ t) = a @ [c]"
proof -
  assume c: "\<not> isWhiteSpace c" and t: "list_all isWhiteSpace t"
  from t have "dropWhile isWhiteSpace (rev t @ (c # rev a)) = dropWhile isWhiteSpace (c # rev a)"
    by (intro dropWhile_append2) (simp add: list_all_iff)
  with c show ?thesis
    by (simp add: trimEnd_def)
qed

text \<open>
  \<open>trim\<close> takes nothing from the statistics but the line feed in front and the white space
  behind the last line, and the system prompt holds the statistics between two line feeds.
\<close>

lemma getStatistics_total:
  "occursIn ([10] @ [1042, 1089, 1077, 1075, 1086, 32, 1079, 1072, 1087, 1080, 1089, 1077, 1081, 58, 32]
              @ showNat (length (allLogs st)) @ [10])
           (getStatistics st)"
proof -
  let ?a = "[10] @ [1054, 1041, 1065, 1040, 1071, 32, 1057, 1058, 1040, 1058, 1048, 1057, 1058, 1048,
          1050, 1040, 32, 1051, 1054, 1043, 1054, 1042, 58, 10]
       @ ascii ''-----------------------''"
  let ?m = "[10] @ [1042, 1089, 1077, 1075, 1086, 32, 1079, 1072, 1087, 1080, 1089, 1077, 1081, 58, 32]
       @ showNat (length (allLogs st)) @ [10]"
  let ?b = "[10]
       @ [1054, 1096, 1080, 1073, 1082, 1080, 32, 1087, 1086, 32, 1090, 1080, 1087, 1072, 1084,
          58, 10]
       @ sortedCounts error_type (allLogs st) @ [10] @ [10]
       @ [1054, 1096, 1080, 1073, 1082, 1080, 32, 1087, 1086, 32, 1089, 1077, 1088, 1074, 1080,
          1089, 1072, 1084, 58, 10]
       @ sortedCounts service (allLogs st) @ [10] @ ascii ''    ''"
  have s: "getStatistics st = trim (?a @ ?m @ ?b)"
    by (simp add: getStatistics_def Let_def)
  have a: "\<exists>c \<in> set ?a. \<not> isWhiteSpace c"
  proof
    show "1054 \<in> set ?a" by simp
    show "\<not> isWhiteSpace 1054" by (simp add: isWhiteSpace_def)
  qed
  have b: "\<exists>c \<in> set ?b. \<not> isWhiteSpace c"
  proof
    show "1054 \<in> set ?b" by simp
    show "\<not> isWhiteSpace 1054" by (simp add: isWhiteSpace_def)
  qed
  have "getStatistics st = trimStart ?a @ ?m @ trimEnd ?b"
    unfolding s by (rule trim_middle [OF a b])
  then show ?thesis
    unfolding occursIn_iff by blast
qed

lemma getStatistics_tables:
  assumes "allLogs st \<noteq> []"
  shows "\<exists>front middle.
           getStatistics st =
             front @ ([10] @ sortedCounts error_type (allLogs st) @ [10]) @ middle
               @ [10] @ sortedCounts service (allLogs st)"
proof -
  let ?h = "[1054, 1041, 1065, 1040, 1071, 32, 1057, 1058, 1040, 1058, 1048, 1057, 1058, 1048,
          1050, 1040, 32, 1051, 1054, 1043, 1054, 1042, 58, 10]
       @ ascii ''-----------------------'' @ [10]
       @ [1042, 1089, 1077, 1075, 1086, 32, 1079, 1072, 1087, 1080, 1089, 1077, 1081, 58, 32]
       @ showNat (length (allLogs st)) @ [10] @ [10]
       @ [1054, 1096, 1080, 1073, 1082, 1080, 32, 1087, 1086, 32, 1090, 1080, 1087, 1072, 1084,
          58]"
  let ?mid = "[10]
       @ [1054, 1096, 1080, 1073, 1082, 1080, 32, 1087, 1086, 32, 1089, 1077, 1088, 1074, 1080,
          1089, 1072, 1084, 58]"
  let ?e = "sortedCounts error_type (allLogs st)"
  let ?s = "sortedCounts service (allLogs st)"
  obtain body c where sv: "?s = body @ [c]" and c: "\<not> isWhiteSpace c"
    using sortedCounts_end [OF assms] by blast
  let ?x = "?h @ ([10] @ ?e @ [10]) @ ?mid @ [10] @ body"
  let ?rest = "([10] @ ?e @ [10]) @ ?mid @ [10] @ body @ [c] @ [10] @ ascii ''    ''"
  have g: "getStatistics st = trim (([10] @ ?h) @ ?rest)"
    by (simp add: getStatistics_def Let_def sv)
  have v: "\<exists>c \<in> set ([10] @ ?h). \<not> isWhiteSpace c"
  proof
    show "1054 \<in> set ([10] @ ?h)" by simp
    show "\<not> isWhiteSpace 1054" by (simp add: isWhiteSpace_def)
  qed
  have t1: "trimStart (([10] @ ?h) @ ?rest) = trimStart ([10] @ ?h) @ ?rest"
    by (rule trimStart_append [OF v])
  have t2: "trimStart ([10] @ ?h) = ?h"
    by (simp add: trimStart_def isWhiteSpace_def)
  have t3: "?h @ ?rest = ?x @ [c] @ ([10] @ ascii ''    '')"
    by (simp only: append_assoc)
  have t4: "trimEnd (?x @ [c] @ ([10] @ ascii ''    '')) = ?x @ [c]"
    by (rule trimEnd_tail [OF c]) (simp add: isWhiteSpace_def ascii_def)
  have "getStatistics st = ?x @ [c]"
    unfolding g trim_def t1 t2 t3 t4 ..
  also have "\<dots> = ?h @ ([10] @ ?e @ [10]) @ ?mid @ [10] @ ?s"
    unfolding sv by (simp only: append_assoc)
  finally have "getStatistics st = ?h @ ([10] @ ?e @ [10]) @ ?mid @ [10] @ ?s" .
  then show ?thesis by blast
qed

lemma statisticsSystemPrompt_lines:
  "\<exists>front rear. statisticsSystemPrompt base stats = front @ ([10] @ stats @ [10]) @ rear"
proof -
  let ?a = "[10] @ base @ [10] @ [10] @ ascii ''MODE: STATISTICS'' @ [10] @ [10]
     @ ascii ''AVAILABLE DATA:'' @ [10]
     @ [1048, 1089, 1087, 1086, 1083, 1100, 1079, 1091, 1081, 32, 1058, 1054, 1051, 1068, 1050,
        1054, 32, 1072, 1075, 1088, 1077, 1075, 1080, 1088, 1086, 1074, 1072, 1085, 1085, 1091,
        1102, 32, 1089, 1090, 1072, 1090, 1080, 1089, 1090, 1080, 1082, 1091, 32, 1085, 1080,
        1078, 1077, 46, 32, 1055, 1088, 1080, 1084, 1077, 1088, 1099, 32, 1083, 1086, 1075,
        1086, 1074, 32, 1080, 1075, 1085, 1086, 1088, 1080, 1088, 1091, 1081, 32, 1087, 1086,
        1083, 1085, 1086, 1089, 1090, 1100, 1102, 46, 10]
     @ [10] @ ascii ''STATISTICS:''"
  have p: "statisticsPrefix base = ?a @ [10]"
    by (simp add: statisticsPrefix_def)
  have a: "\<exists>c \<in> set ?a. \<not> isWhiteSpace c"
  proof
    show "77 \<in> set ?a" by (simp add: ascii_def)
    show "\<not> isWhiteSpace 77" by (simp add: isWhiteSpace_def)
  qed
  have s: "statisticsSuffix = [10] @ tl statisticsSuffix"
    by (simp add: statisticsSuffix_def)
  have t: "\<exists>c \<in> set (tl statisticsSuffix). \<not> isWhiteSpace c"
  proof
    show "82 \<in> set (tl statisticsSuffix)" by (simp add: statisticsSuffix_def ascii_def)
    show "\<not> isWhiteSpace 82" by (simp add: isWhiteSpace_def)
  qed
  have "trimStart (statisticsPrefix base) = trimStart ?a @ [10]"
    unfolding p by (rule trimStart_append [OF a])
  moreover have "trimEnd statisticsSuffix = [10] @ trimEnd (tl statisticsSuffix)"
    by (subst s) (rule trimEnd_append [OF t])
  ultimately have "statisticsSystemPrompt base stats =
      trimStart ?a @ ([10] @ stats @ [10]) @ trimEnd (tl statisticsSuffix)"
    by (simp add: statisticsSystemPrompt_contains)
  then show ?thesis by blast
qed

lemma statisticsSystemPrompt_counts:
  assumes "l \<in> set (allLogs st)"
  shows "occursIn ([10] @ statLine (error_type l,
                     length (filter (\<lambda>x. error_type x = error_type l) (allLogs st))) @ [10])
           (statisticsSystemPrompt base (getStatistics st))"
    and "occursIn ([10] @ statLine (service l,
                     length (filter (\<lambda>x. service x = service l) (allLogs st))) @ [10])
           (statisticsSystemPrompt base (getStatistics st))"
proof -
  from assms have n: "allLogs st \<noteq> []" by auto
  obtain front middle where
    g: "getStatistics st =
          front @ ([10] @ sortedCounts error_type (allLogs st) @ [10]) @ middle
            @ [10] @ sortedCounts service (allLogs st)"
    using getStatistics_tables [OF n] by blast
  obtain front' rear' where
    p: "statisticsSystemPrompt base (getStatistics st)
          = front' @ ([10] @ getStatistics st @ [10]) @ rear'"
    using statisticsSystemPrompt_lines by blast
  have "statisticsSystemPrompt base (getStatistics st)
          = (front' @ [10] @ front) @ ([10] @ sortedCounts error_type (allLogs st) @ [10])
            @ (middle @ [10] @ sortedCounts service (allLogs st) @ [10] @ rear')"
    by (subst p, subst g) simp
  then have e: "occursIn ([10] @ sortedCounts error_type (allLogs st) @ [10])
                  (statisticsSystemPrompt base (getStatistics st))"
    unfolding occursIn_iff by blast
  have "statisticsSystemPrompt base (getStatistics st)
          = (front' @ [10] @ front @ [10] @ sortedCounts error_type (allLogs st) @ [10] @ middle)
            @ ([10] @ sortedCounts service (allLogs st) @ [10]) @ rear'"
    by (subst p, subst g) simp
  then have s: "occursIn ([10] @ sortedCounts service (allLogs st) @ [10])
                  (statisticsSystemPrompt base (getStatistics st))"
    unfolding occursIn_iff by blast
  show "occursIn ([10] @ statLine (error_type l,
                     length (filter (\<lambda>x. error_type x = error_type l) (allLogs st))) @ [10])
           (statisticsSystemPrompt base (getStatistics st))"
    using sortedCounts_line [OF assms] e by (rule occursIn_trans)
  show "occursIn ([10] @ statLine (service l,
                     length (filter (\<lambda>x. service x = service l) (allLogs st))) @ [10])
           (statisticsSystemPrompt base (getStatistics st))"
    using sortedCounts_line [OF assms] s by (rule occursIn_trans)
qed

lemma statisticsSystemPrompt_total:
  "occursIn ([10] @ [1042, 1089, 1077, 1075, 1086, 32, 1079, 1072, 1087, 1080, 1089, 1077, 1081, 58, 32]
              @ showNat (length (allLogs st)) @ [10])
           (statisticsSystemPrompt base (getStatistics st))"
proof -
  have "occursIn (getStatistics st) (statisticsSystemPrompt base (getStatistics st))"
    unfolding statisticsSystemPrompt_contains by (rule occursIn_appendI)
  with getStatistics_total show ?thesis
    by (rule occursIn_trans)
qed

lemma getStatistics_counts_cong:
  assumes "length (allLogs st') = length (allLogs st)"
    and "countBy error_type (allLogs st') = countBy error_type (allLogs st)"
    and "countBy service (allLogs st') = countBy service (allLogs st)"
  shows "getStatistics st' = getStatistics st"
  using assms by (simp add: getStatistics_def sortedCounts_def)

text \<open>
  Claim C5. For every question answered in the statistics mode (the question is embedded
  and the user context is available, so a prompt is assembled) over a corpus whose error
  types and services are plain keys, the chat model is called once more, with a system
  prompt that holds the statistics \<open>getStatistics\<close> computes from the corpus at that
  moment. The counts are in it: the line of the number of records, and for every record
  of the corpus the line of its error type and the line of its service, each with the
  number of records that have that error type or that service, each a whole line of the
  prompt (between two line feeds). And no text of a record is in it: the system prompt and
  the user message are the same for every system with the same profile whose corpus has
  the same number of records and the same two tables of counts, whatever the messages,
  times, users, stack traces and metadata of its records, whatever its index, and whatever
  the embedding of the question, hence whatever records the ranking retrieves.
\<close>

theorem statistical_prompt_isolation:
  assumes "intentOf st question = Statistical"
    and "embedFn env (length (embedCalls w)) question = Inr v"
    and "userContext st = Inr uc"
    and "plainKeys (allLogs st)"
  shows "chatCalls (snd (snd (askQuestion env st w question onToken)))
           = chatCalls w @ [(statisticsSystemPrompt (baseSystemPrompt st uc) (getStatistics st),
                             statisticsUserMessage question)]
       \<and> (\<exists>front rear. statisticsSystemPrompt (baseSystemPrompt st uc) (getStatistics st)
                          = front @ getStatistics st @ rear)
       \<and> occursIn ([10] @ [1042, 1089, 1077, 1075, 1086, 32, 1079, 1072, 1087, 1080, 1089, 1077,
                           1081, 58, 32]
                    @ showNat (length (allLogs st)) @ [10])
                  (statisticsSystemPrompt (baseSystemPrompt st uc) (getStatistics st))
       \<and> (\<forall>l \<in> set (allLogs st).
            occursIn ([10] @ statLine (error_type l,
                              length (filter (\<lambda>x. error_type x = error_type l) (allLogs st)))
                       @ [10])
                    (statisticsSystemPrompt (baseSystemPrompt st uc) (getStatistics st))
            \<and> occursIn ([10] @ statLine (service l,
                                length (filter (\<lambda>x. service x = service l) (allLogs st)))
                         @ [10])
                      (statisticsSystemPrompt (baseSystemPrompt st uc) (getStatistics st)))
       \<and> (\<forall>env' st' w' v' onToken'.
            personalization st' = personalization st \<and>
            length (allLogs st') = length (allLogs st) \<and>
            countBy error_type (allLogs st') = countBy error_type (allLogs st) \<and>
            countBy service (allLogs st') = countBy service (allLogs st) \<and>
            embedFn env' (length (embedCalls w')) question = Inr v'
            \<longrightarrow> last (chatCalls (snd (snd (askQuestion env' st' w' question onToken'))))
                = (statisticsSystemPrompt (baseSystemPrompt st uc) (getStatistics st),
                   statisticsUserMessage question))"
proof (intro conjI allI impI ballI)
  show "chatCalls (snd (snd (askQuestion env st w question onToken)))
           = chatCalls w @ [(statisticsSystemPrompt (baseSystemPrompt st uc) (getStatistics st),
                             statisticsUserMessage question)]"
    by (simp add: askQuestion_statistical [OF assms(1-3)] chat_calls)
next
  show "\<exists>front rear. statisticsSystemPrompt (baseSystemPrompt st uc) (getStatistics st)
                          = front @ getStatistics st @ rear"
    using statisticsSystemPrompt_contains by blast
next
  show "occursIn ([10] @ [1042, 1089, 1077, 1075, 1086, 32, 1079, 1072, 1087, 1080, 1089, 1077,
                           1081, 58, 32]
                    @ showNat (length (allLogs st)) @ [10])
                  (statisticsSystemPrompt (baseSystemPrompt st uc) (getStatistics st))"
    by (rule statisticsSystemPrompt_total)
next
  fix l assume "l \<in> set (allLogs st)"
  then show "occursIn ([10] @ statLine (error_type l,
                              length (filter (\<lambda>x. error_type x = error_type l) (allLogs st)))
                       @ [10])
                    (statisticsSystemPrompt (baseSystemPrompt st uc) (getStatistics st))"
    by (rule statisticsSystemPrompt_counts)
next
  fix l assume "l \<in> set (allLogs st)"
  then show "occursIn ([10] @ statLine (service l,
                                length (filter (\<lambda>x. service x = service l) (allLogs st)))
                         @ [10])
                      (statisticsSystemPrompt (baseSystemPrompt st uc) (getStatistics st))"
    by (rule statisticsSystemPrompt_counts)
next
  fix env' :: env and st' :: ragSystem and w' :: world and v' :: "real list" and onToken' :: bool
  assume a: "personalization st' = personalization st \<and>
             length (allLogs st') = length (allLogs st) \<and>
             countBy error_type (allLogs st') = countBy error_type (allLogs st) \<and>
             countBy service (allLogs st') = countBy service (allLogs st) \<and>
             embedFn env' (length (embedCalls w')) question = Inr v'"
  then have i': "intentOf st' question = Statistical"
    and e': "embedFn env' (length (embedCalls w')) question = Inr v'"
    and u': "userContext st' = Inr uc"
    using assms(1,3) intentOf_cong [of st' st question] userContext_cong [of st' st]
    by simp_all
  from a have "baseSystemPrompt st' uc = baseSystemPrompt st uc"
    and "getStatistics st' = getStatistics st"
    using baseSystemPrompt_cong [of st' st uc] getStatistics_counts_cong [of st' st] by simp_all
  then show "last (chatCalls (snd (snd (askQuestion env' st' w' question onToken'))))
                = (statisticsSystemPrompt (baseSystemPrompt st uc) (getStatistics st),
                   statisticsUserMessage question)"
    by (simp add: askQuestion_statistical [OF i' e' u'] chat_calls)
qed

text \<open>The statistics of the sample corpus, in full.\<close>

lemma getStatistics_indexedSystem:
  "getStatistics indexedSystem =
     [1054, 1041, 1065, 1040, 1071, 32, 1057, 1058, 1040, 1058, 1048, 1057, 1058, 1048, 1050,
      1040, 32, 1051, 1054, 1043, 1054, 1042, 58, 10]
     @ ascii ''-----------------------''
     @ [10, 1042, 1089, 1077, 1075, 1086, 32, 1079, 1072, 1087, 1080, 1089, 1077, 1081, 58, 32,
        51, 10, 10, 1054, 1096, 1080, 1073, 1082, 1080, 32, 1087, 1086, 32, 1090, 1080, 1087,
        1072, 1084, 58, 10]
     @ ascii ''  - Timeout: 2'' @ [10] @ ascii ''  - AuthFailed: 1''
     @ [10, 10, 1054, 1096, 1080, 1073, 1082, 1080, 32, 1087, 1086, 32, 1089, 1077, 1088, 1074,
        1080, 1089, 1072, 1084, 58, 10]
     @ ascii ''  - payment: 2'' @ [10] @ ascii ''  - auth: 1''"
proof -
  have e: "sortedCounts error_type sampleLogs = ascii ''  - Timeout: 2'' @ [10] @ ascii ''  - AuthFailed: 1''"
    by (simp add: sampleLogs_def timeoutLog1_def timeoutLog2_def authFailedLog_def
        sortedCounts_def countBy_def objectEntries_def isArrayIndex_def arraySort_byCount
        sortBy_def byCount_def statLine_def showNat_digit ascii_def)
  have s: "sortedCounts service sampleLogs = ascii ''  - payment: 2'' @ [10] @ ascii ''  - auth: 1''"
    by (simp add: sampleLogs_def timeoutLog1_def timeoutLog2_def authFailedLog_def
        sortedCounts_def countBy_def objectEntries_def isArrayIndex_def arraySort_byCount
        sortBy_def byCount_def statLine_def showNat_digit ascii_def)
  have n: "showNat (length sampleLogs) = [51]"
    by (simp add: sampleLogs_def showNat_digit)
  show ?thesis
    by (simp add: getStatistics_def indexedSystem_def e s n Let_def trim_def trimStart_def
        trimEnd_def isWhiteSpace_def ascii_def)
qed


theorem statistical_prompt_isolation_witness:
  "intentOf indexedSystem timeoutQuestion = Statistical
   \<and> embedFn sampleEnv (length (embedCalls sampleWorld)) timeoutQuestion = Inr [1, 0]
   \<and> userContext indexedSystem
       = Inr (ascii ''USER CONTEXT:'' @ [10] @ [1085, 1077, 32, 1079, 1072, 1076, 1072, 1085, 10])
   \<and> plainKeys (allLogs indexedSystem)
   \<and> (\<exists>systemPrompt.
         chatCalls (snd (snd (askQuestion sampleEnv indexedSystem sampleWorld timeoutQuestion True)))
           = [(systemPrompt, statisticsUserMessage timeoutQuestion)]
         \<and> occursIn ([10] @ [1042, 1089, 1077, 1075, 1086, 32, 1079, 1072, 1087, 1080, 1089, 1077,
                             1081, 58, 32] @ ascii ''3'' @ [10]) systemPrompt
         \<and> occursIn ([10] @ ascii ''  - Timeout: 2'' @ [10]) systemPrompt
         \<and> occursIn ([10] @ ascii ''  - auth: 1'' @ [10]) systemPrompt
         \<and> last (chatCalls (snd (snd (askQuestion failingEnv anonymousSystem sampleWorld
                                         timeoutQuestion False))))
             = (systemPrompt, statisticsUserMessage timeoutQuestion))"
proof -
  let ?uc = "ascii ''USER CONTEXT:'' @ [10] @ [1085, 1077, 32, 1079, 1072, 1076, 1072, 1085, 10]"
  let ?prompt = "statisticsSystemPrompt (baseSystemPrompt indexedSystem ?uc) (getStatistics indexedSystem)"
  have i: "intentOf indexedSystem timeoutQuestion = Statistical"
    by (simp add: intentOf_def not_isNameQuery_timeoutQuestion not_isPersonalQuery_timeoutQuestion
        isStatisticalQuery_timeoutQuestion)
  have e: "embedFn sampleEnv (length (embedCalls sampleWorld)) timeoutQuestion = Inr [1, 0]"
    by (simp add: sampleEnv_def)
  have u: "userContext indexedSystem = Inr ?uc"
    by (simp add: userContext_def indexedSystem_def)
  have k: "plainKeys (allLogs indexedSystem)"
    by (simp add: plainKeys_def objectPrototypeMembers_def indexedSystem_def sampleLogs_def
        timeoutLog1_def timeoutLog2_def authFailedLog_def ascii_def)
  have c0: "chatCalls sampleWorld = []"
    by (simp add: sampleWorld_def)
  have l: "allLogs indexedSystem = [timeoutLog1, timeoutLog2, authFailedLog]"
    by (simp add: indexedSystem_def sampleLogs_def)
  have m: "timeoutLog1 \<in> set (allLogs indexedSystem)" "authFailedLog \<in> set (allLogs indexedSystem)"
    by (simp_all add: l)
  have n: "showNat (length (allLogs indexedSystem)) = ascii ''3''"
    by (simp add: l showNat_digit ascii_def)
  have t: "statLine (error_type timeoutLog1,
             length (filter (\<lambda>x. error_type x = error_type timeoutLog1) (allLogs indexedSystem)))
           = ascii ''  - Timeout: 2''"
    by (simp add: l statLine_def timeoutLog1_def timeoutLog2_def authFailedLog_def showNat_digit
        ascii_def)
  have a: "statLine (service authFailedLog,
             length (filter (\<lambda>x. service x = service authFailedLog) (allLogs indexedSystem)))
           = ascii ''  - auth: 1''"
    by (simp add: l statLine_def timeoutLog1_def timeoutLog2_def authFailedLog_def showNat_digit
        ascii_def)
  have p: "personalization anonymousSystem = personalization indexedSystem"
    and q: "length (allLogs anonymousSystem) = length (allLogs indexedSystem)"
    by (simp_all add: anonymousSystem_def indexedSystem_def)
  have ce: "countBy error_type (allLogs anonymousSystem) = countBy error_type (allLogs indexedSystem)"
    by (simp add: anonymousSystem_def indexedSystem_def countBy_def foldl_map)
  have cs: "countBy service (allLogs anonymousSystem) = countBy service (allLogs indexedSystem)"
    by (simp add: anonymousSystem_def indexedSystem_def countBy_def foldl_map)
  have e': "embedFn failingEnv (length (embedCalls sampleWorld)) timeoutQuestion = Inr [1, 0]"
    by (simp add: failingEnv_def sampleWorld_def)
  note r = statistical_prompt_isolation [OF i e u k, of True]
  from r have 1: "chatCalls (snd (snd (askQuestion sampleEnv indexedSystem sampleWorld timeoutQuestion True)))
           = [(?prompt, statisticsUserMessage timeoutQuestion)]"
    by (simp add: c0)
  from r have 2: "occursIn ([10] @ [1042, 1089, 1077, 1075, 1086, 32, 1079, 1072, 1087, 1080, 1089, 1077,
                             1081, 58, 32] @ ascii ''3'' @ [10]) ?prompt"
    unfolding n by (rule conjunct2 [THEN conjunct2, THEN conjunct1])
  note lines = r [THEN conjunct2, THEN conjunct2, THEN conjunct2, THEN conjunct1, rule_format]
  from lines [OF m(1), THEN conjunct1]
  have 3: "occursIn ([10] @ ascii ''  - Timeout: 2'' @ [10]) ?prompt"
    unfolding t .
  from lines [OF m(2), THEN conjunct2]
  have 4: "occursIn ([10] @ ascii ''  - auth: 1'' @ [10]) ?prompt"
    unfolding a .
  note same = r [THEN conjunct2, THEN conjunct2, THEN conjunct2, THEN conjunct2, rule_format,
      OF conjI [OF p conjI [OF q conjI [OF ce conjI [OF cs e']]]], of False]
  from i e u k 1 2 3 4 same show ?thesis
    by blast
qed

end
